theory Spec2Isabelle
  imports Complex_Main
begin

section \<open>Numbers, errors and boxes\<close>

text \<open>
  The notebooks compute with Python numbers and TensorFlow tensors. Python integers are
  exact and unbounded; on them \<open>iou\<close> is modelled with exact arithmetic. Python floats
  are binary64 numbers and the encodings of the triplet loss are float32 tensors: there
  every operation rounds to the nearest number of the format, overflows to an infinity
  and can produce NaN, and that is how \<open>iou_float\<close> and \<open>triplet_loss\<close> are modelled.
  The scores of the detection filter are modelled as reals: the filter compares and
  selects them. A Python exception or a TensorFlow failure is a value of the type
  \<open>error\<close>, returned on the left of a sum.
\<close>

datatype error = ZeroDivisionError | ShapeError | IndexError

text \<open>
  A box in corner form, \<open>(x1, y1, x2, y2)\<close>: the source reads the four coordinates as
  \<open>box[0]\<close>, \<open>box[1]\<close>, \<open>box[2]\<close>, \<open>box[3]\<close>.
\<close>

type_synonym box = "real \<times> real \<times> real \<times> real"

section \<open>Intersection over union\<close>

text \<open>
  \<^verbatim>\<open>
  def iou(box1, box2):
      xi1 = max(box1[0],box2[0])
      yi1 = max(box1[1],box2[1])
      xi2 = min(box1[2],box2[2])
      yi2 = min(box1[3],box2[3])
      inter_area = (yi2-yi1)*(xi2-xi1)
      box1_area = (box1[2]-box1[0])*(box1[3]-box1[1])
      box2_area = (box2[2]-box2[0])*(box2[3]-box2[1])
      union_area = box1_area + box2_area - inter_area
      iou = inter_area/union_area
      return iou
  \<close>
  The three areas are named as the source's local variables are. Python's division raises
  \<open>ZeroDivisionError\<close> on a zero divisor; nothing in the function tests for it.
  The definitions that follow compute exactly, as Python does on integer coordinates;
  the quotient of two integers is then rounded once, to the nearest binary64 number.
\<close>

fun inter_area :: "box \<Rightarrow> box \<Rightarrow> real" where
  "inter_area (a0, a1, a2, a3) (b0, b1, b2, b3) =
     (let xi1 = max a0 b0;
          yi1 = max a1 b1;
          xi2 = min a2 b2;
          yi2 = min a3 b3
      in (yi2 - yi1) * (xi2 - xi1))"

fun box_area :: "box \<Rightarrow> real" where
  "box_area (x1, y1, x2, y2) = (x2 - x1) * (y2 - y1)"

definition union_area :: "box \<Rightarrow> box \<Rightarrow> real" where
  "union_area box1 box2 = box_area box1 + box_area box2 - inter_area box1 box2"

definition iou :: "box \<Rightarrow> box \<Rightarrow> error + real" where
  "iou box1 box2 =
     (if union_area box1 box2 = 0 then Inl ZeroDivisionError
      else Inr (inter_area box1 box2 / union_area box1 box2))"

text \<open>Vocabulary for the statements about \<open>iou\<close>.\<close>

fun non_degenerate :: "box \<Rightarrow> bool" where
  "non_degenerate (x1, y1, x2, y2) = (x1 < x2 \<and> y1 < y2)"

text \<open>The intersection rectangle is non-empty: on each axis the later start is not after the earlier end.\<close>

fun intersecting :: "box \<Rightarrow> box \<Rightarrow> bool" where
  "intersecting (a0, a1, a2, a3) (b0, b1, b2, b3) =
     (max a0 b0 \<le> min a2 b2 \<and> max a1 b1 \<le> min a3 b3)"

text \<open>Two boxes are disjoint when they are apart on some axis.\<close>

fun disjoint_boxes :: "box \<Rightarrow> box \<Rightarrow> bool" where
  "disjoint_boxes (a0, a1, a2, a3) (b0, b1, b2, b3) =
     (a2 < b0 \<or> b2 < a0 \<or> a3 < b1 \<or> b3 < a1)"

text \<open>Apart on the x axis only: the first box ends before the second starts, and the y ranges overlap.\<close>

fun apart_on_x_only :: "box \<Rightarrow> box \<Rightarrow> bool" where
  "apart_on_x_only (a0, a1, a2, a3) (b0, b1, b2, b3) =
     (a2 < b0 \<and> max a1 b1 < min a3 b3)"

text \<open>
  A binary64 number with significand \<open>m\<close> and exponent \<open>- k\<close> is the one nearest to \<open>x\<close>
  when \<open>x\<close> is less than half a unit in the last place away from it. Python's \<open>/\<close> on two
  integers returns the binary64 number nearest to the quotient, and a decimal literal
  denotes the binary64 number nearest to it.
\<close>

definition nearest_binary64 :: "real \<Rightarrow> int \<Rightarrow> nat \<Rightarrow> bool" where
  "nearest_binary64 x m k =
     (2 ^ 52 \<le> m \<and> m < 2 ^ 53 \<and> \<bar>x - real_of_int m / 2 ^ k\<bar> < 1 / 2 ^ (k + 1))"

text \<open>All four coordinates are integers, as in the notebook's own call of \<open>iou\<close>.\<close>

fun integer_box :: "box \<Rightarrow> bool" where
  "integer_box (x1, y1, x2, y2) = (x1 \<in> \<int> \<and> y1 \<in> \<int> \<and> x2 \<in> \<int> \<and> y2 \<in> \<int>)"

section \<open>Floating-point numbers\<close>

text \<open>
  A floating-point value is a finite number, one of the two infinities, or NaN. The two
  zeros of a format are one value here: no comparison tells them apart, and Python raises
  before dividing by either.
\<close>

datatype fl = Fin real | PInf | NInf | NaN

text \<open>
  A format is given by its precision \<open>p\<close> (the number of significand bits) and by
  \<open>emax\<close>, the least exponent with \<open>2 ^ emax\<close> too large for the format. Its
  smallest positive number is \<open>2 ^ (3 - emax - p)\<close>.
\<close>

type_synonym format = "nat \<times> int"

definition binary64 :: format where "binary64 = (53, 1024)"
definition binary32 :: format where "binary32 = (24, 128)"

text \<open>Rounding to the nearest integer, a tie going to the even one.\<close>

definition round_half_even :: "real \<Rightarrow> int" where
  "round_half_even r =
     (let n = \<lfloor>r\<rfloor>
      in if r - of_int n < 1 / 2 then n
         else if 1 / 2 < r - of_int n then n + 1
         else if even n then n else n + 1)"

text \<open>Powers of two with an integer exponent.\<close>

definition pow2 :: "int \<Rightarrow> real" where
  "pow2 k = (if 0 \<le> k then 2 ^ nat k else 1 / 2 ^ nat (- k))"

text \<open>
  The exponent of a number: the \<open>e\<close> with \<open>2 ^ e \<le> \<bar>x\<bar> < 2 ^ (e + 1)\<close>, found by halving
  a number that is at least \<open>1\<close> and by doubling a smaller one; the exponent of zero is
  taken to be \<open>0\<close>.
\<close>

function exponent_up :: "real \<Rightarrow> nat" where
  "exponent_up x = (if x < 2 then 0 else Suc (exponent_up (x / 2)))"
  by pat_completeness auto
termination
proof (relation "measure (\<lambda>x. nat \<lfloor>x\<rfloor>)")
  fix x :: real
  assume "\<not> x < 2"
  then have "\<lfloor>x / 2\<rfloor> \<le> \<lfloor>x - 1\<rfloor>" and "2 \<le> \<lfloor>x\<rfloor>"
    by (intro floor_mono, simp, simp add: le_floor_iff)
  then show "(x / 2, x) \<in> measure (\<lambda>x. nat \<lfloor>x\<rfloor>)"
    by simp
qed simp

function exponent_down :: "real \<Rightarrow> nat" where
  "exponent_down x = (if 1 \<le> x \<or> x \<le> 0 then 0 else Suc (exponent_down (2 * x)))"
  by pat_completeness auto
termination
proof (relation "measure (\<lambda>x. nat \<lceil>1 / x\<rceil>)")
  fix x :: real
  assume "\<not> (1 \<le> x \<or> x \<le> 0)"
  then have x: "0 < x" "x < 1" by simp_all
  then have "1 < 1 / x" by simp
  then have n: "2 \<le> \<lceil>1 / x\<rceil>" by (simp add: le_ceiling_iff)
  have "1 / (2 * x) = (1 / x) / 2" by simp
  also have "\<dots> \<le> real_of_int \<lceil>1 / x\<rceil> / 2"
    by (intro divide_right_mono) simp_all
  also have "\<dots> \<le> real_of_int (\<lceil>1 / x\<rceil> - 1)"
    using n by simp
  finally have "\<lceil>1 / (2 * x)\<rceil> \<le> \<lceil>1 / x\<rceil> - 1"
    by (simp only: ceiling_le_iff)
  then have "nat \<lceil>1 / (2 * x)\<rceil> < nat \<lceil>1 / x\<rceil>"
    using n by linarith
  then show "(2 * x, x) \<in> measure (\<lambda>x. nat \<lceil>1 / x\<rceil>)"
    unfolding in_measure .
qed simp

definition float_exponent :: "real \<Rightarrow> int" where
  "float_exponent x =
     (if 1 \<le> \<bar>x\<bar> then int (exponent_up \<bar>x\<bar>) else - int (exponent_down \<bar>x\<bar>))"

text \<open>
  The exponent of the unit in the last place at \<open>x\<close>: \<open>p - 1\<close> below the exponent of
  \<open>x\<close>, and never below that of the smallest positive number (gradual underflow).
\<close>

definition ulp_exp :: "format \<Rightarrow> real \<Rightarrow> int" where
  "ulp_exp f x = max (float_exponent x - int (fst f) + 1) (3 - snd f - int (fst f))"

text \<open>Rounding \<open>x\<close> to the nearest multiple of its unit in the last place.\<close>

definition grid_round :: "format \<Rightarrow> real \<Rightarrow> real" where
  "grid_round f x =
     (let u = pow2 (ulp_exp f x)
      in real_of_int (round_half_even (x / u)) * u)"

text \<open>
  Rounding to the format (round to nearest, ties to even): the rounded value, or an
  infinity when it has reached \<open>2 ^ emax\<close>.
\<close>

definition round_to :: "format \<Rightarrow> real \<Rightarrow> fl" where
  "round_to f x =
     (let y = grid_round f x
      in if pow2 (snd f) \<le> \<bar>y\<bar> then (if 0 < x then PInf else NInf) else Fin y)"

text \<open>The finite numbers of a format are those that rounding leaves as they are.\<close>

definition representable :: "format \<Rightarrow> real \<Rightarrow> bool" where
  "representable f a = (round_to f a = Fin a)"

text \<open>
  They are the numbers \<open>m * 2 ^ k\<close> below \<open>2 ^ emax\<close> with a significand \<open>m\<close> of at most
  \<open>p\<close> bits and an exponent \<open>k\<close> not below that of the smallest positive number.
\<close>

definition float_form :: "format \<Rightarrow> real \<Rightarrow> bool" where
  "float_form f a =
     (\<exists>m k. a = real_of_int m * 2 powr real_of_int k \<and> \<bar>m\<bar> \<le> 2 ^ fst f
        \<and> 3 - snd f - int (fst f) \<le> k \<and> \<bar>a\<bar> < 2 powr real_of_int (snd f))"

text \<open>Comparisons: every comparison with NaN is false.\<close>

fun fl_le :: "fl \<Rightarrow> fl \<Rightarrow> bool" where
  "fl_le NaN b = False"
| "fl_le a NaN = False"
| "fl_le NInf b = True"
| "fl_le a PInf = True"
| "fl_le (Fin x) (Fin y) = (x \<le> y)"
| "fl_le a b = False"

fun fl_less :: "fl \<Rightarrow> fl \<Rightarrow> bool" where
  "fl_less NaN b = False"
| "fl_less a NaN = False"
| "fl_less (Fin x) (Fin y) = (x < y)"
| "fl_less PInf b = False"
| "fl_less a NInf = False"
| "fl_less a b = True"

text \<open>
  The arithmetic of the format: the exact result of finite operands is rounded; the
  infinities and NaN follow IEEE 754, and so does the division of a finite number by
  zero, which gives an infinity, or NaN for \<open>0 / 0\<close>.
\<close>

fun fl_neg :: "fl \<Rightarrow> fl" where
  "fl_neg (Fin x) = Fin (- x)"
| "fl_neg PInf = NInf"
| "fl_neg NInf = PInf"
| "fl_neg NaN = NaN"

fun fl_add :: "format \<Rightarrow> fl \<Rightarrow> fl \<Rightarrow> fl" where
  "fl_add f (Fin x) (Fin y) = round_to f (x + y)"
| "fl_add f NaN b = NaN"
| "fl_add f a NaN = NaN"
| "fl_add f PInf NInf = NaN"
| "fl_add f NInf PInf = NaN"
| "fl_add f PInf b = PInf"
| "fl_add f NInf b = NInf"
| "fl_add f a PInf = PInf"
| "fl_add f a NInf = NInf"

definition fl_sub :: "format \<Rightarrow> fl \<Rightarrow> fl \<Rightarrow> fl" where
  "fl_sub f a b = fl_add f a (fl_neg b)"

fun fl_mul :: "format \<Rightarrow> fl \<Rightarrow> fl \<Rightarrow> fl" where
  "fl_mul f (Fin x) (Fin y) = round_to f (x * y)"
| "fl_mul f NaN b = NaN"
| "fl_mul f a NaN = NaN"
| "fl_mul f PInf (Fin y) = (if y = 0 then NaN else if 0 < y then PInf else NInf)"
| "fl_mul f NInf (Fin y) = (if y = 0 then NaN else if 0 < y then NInf else PInf)"
| "fl_mul f (Fin x) PInf = (if x = 0 then NaN else if 0 < x then PInf else NInf)"
| "fl_mul f (Fin x) NInf = (if x = 0 then NaN else if 0 < x then NInf else PInf)"
| "fl_mul f PInf PInf = PInf"
| "fl_mul f NInf NInf = PInf"
| "fl_mul f PInf NInf = NInf"
| "fl_mul f NInf PInf = NInf"

fun fl_div :: "format \<Rightarrow> fl \<Rightarrow> fl \<Rightarrow> fl" where
  "fl_div f (Fin x) (Fin y) =
     (if y = 0 then (if x = 0 then NaN else if 0 < x then PInf else NInf)
      else round_to f (x / y))"
| "fl_div f NaN b = NaN"
| "fl_div f a NaN = NaN"
| "fl_div f (Fin x) b = Fin 0"
| "fl_div f PInf (Fin y) = (if 0 \<le> y then PInf else NInf)"
| "fl_div f NInf (Fin y) = (if 0 \<le> y then NInf else PInf)"
| "fl_div f a b = NaN"

text \<open>Python's \<open>/\<close> on floats raises on a zero divisor and divides otherwise.\<close>

definition py_truediv :: "fl \<Rightarrow> fl \<Rightarrow> error + fl" where
  "py_truediv a b = (if b = Fin 0 then Inl ZeroDivisionError else Inr (fl_div binary64 a b))"

text \<open>Vocabulary for the statements about floating-point results.\<close>

fun fl_nonneg :: "fl \<Rightarrow> bool" where
  "fl_nonneg (Fin x) = (0 \<le> x)"
| "fl_nonneg PInf = True"
| "fl_nonneg a = False"

fun fl_positive :: "fl \<Rightarrow> bool" where
  "fl_positive (Fin x) = (0 < x)"
| "fl_positive PInf = True"
| "fl_positive a = False"

fun is_finite :: "fl \<Rightarrow> bool" where
  "is_finite (Fin x) = True"
| "is_finite a = False"

section \<open>Intersection over union on floats\<close>

text \<open>
  The same function \<open>iou\<close> on boxes whose coordinates are finite binary64 numbers: every
  subtraction, product and sum of the source is rounded. On finite floats Python's \<open>max\<close>
  and \<open>min\<close> are those of the reals.
\<close>

fun inter_area_float :: "box \<Rightarrow> box \<Rightarrow> fl" where
  "inter_area_float (a0, a1, a2, a3) (b0, b1, b2, b3) =
     (let xi1 = max a0 b0;
          yi1 = max a1 b1;
          xi2 = min a2 b2;
          yi2 = min a3 b3
      in fl_mul binary64 (fl_sub binary64 (Fin yi2) (Fin yi1))
           (fl_sub binary64 (Fin xi2) (Fin xi1)))"

fun box_area_float :: "box \<Rightarrow> fl" where
  "box_area_float (x1, y1, x2, y2) =
     fl_mul binary64 (fl_sub binary64 (Fin x2) (Fin x1)) (fl_sub binary64 (Fin y2) (Fin y1))"

definition union_area_float :: "box \<Rightarrow> box \<Rightarrow> fl" where
  "union_area_float box1 box2 =
     fl_sub binary64 (fl_add binary64 (box_area_float box1) (box_area_float box2))
       (inter_area_float box1 box2)"

definition iou_float :: "box \<Rightarrow> box \<Rightarrow> error + fl" where
  "iou_float box1 box2 =
     py_truediv (inter_area_float box1 box2) (union_area_float box1 box2)"

section \<open>Tensors\<close>

text \<open>
  The detection tensors have shape \<open>(19, 19, 5, k)\<close>. Every operation of the filter acts
  on the last axis or entry by entry, and \<open>tf.boolean_mask\<close> enumerates the three
  leading axes in row-major order, so a tensor is modelled as the list of its rows in
  that order: one row per box, \<open>k\<close> entries per row. \<open>box_confidence\<close> has \<open>k = 1\<close>
  and is the list of its single entries; \<open>boxes\<close> has \<open>k = 4\<close> and is a list of boxes.
  The documented shapes agree on the leading axes. Operands that disagree there are
  rejected with \<open>ShapeError\<close>; the broadcasting of a leading axis of extent one, which
  the documented shapes do not use, is not modelled.
\<close>

text \<open>\<open>box_confidence * box_class_probs\<close>: the confidence of a box multiplies each class probability of its row.\<close>

definition broadcast_mul :: "real list \<Rightarrow> real list list \<Rightarrow> real list list" where
  "broadcast_mul confidence probs = map2 (\<lambda>c row. map (\<lambda>p. c * p) row) confidence probs"

text \<open>\<open>K.max(t, axis=-1)\<close>: the largest entry of each row.\<close>

definition K_max :: "real list list \<Rightarrow> real list" where
  "K_max t = map (\<lambda>row. Max (set row)) t"

text \<open>\<open>K.argmax(t, axis=-1)\<close>: the position of the largest entry of each row, the first one when several are largest.\<close>

definition argmax_row :: "real list \<Rightarrow> nat" where
  "argmax_row row = length (takeWhile (\<lambda>v. v \<noteq> Max (set row)) row)"

definition K_argmax :: "real list list \<Rightarrow> nat list" where
  "K_argmax t = map argmax_row t"

text \<open>\<open>tf.boolean_mask(tensor, mask)\<close>: the rows whose mask entry is true, in the order of the tensor.\<close>

definition boolean_mask :: "'a list \<Rightarrow> bool list \<Rightarrow> 'a list" where
  "boolean_mask tensor keep = map fst (filter snd (zip tensor keep))"

text \<open>\<open>K.gather(reference, indices)\<close>: the rows at the given positions; a position outside the tensor is an error.\<close>

definition K_gather :: "'a list \<Rightarrow> nat list \<Rightarrow> error + 'a list" where
  "K_gather reference indices =
     (if list_all (\<lambda>i. i < length reference) indices then Inr (map (\<lambda>i. reference ! i) indices)
      else Inl IndexError)"

section \<open>Filtering by score\<close>

text \<open>
  The three tensors describe the same boxes, and every box has the same positive number
  of classes (80 in the notebook).
\<close>

definition compatible_shapes :: "real list \<Rightarrow> box list \<Rightarrow> real list list \<Rightarrow> bool" where
  "compatible_shapes box_confidence boxes box_class_probs =
     (length box_confidence = length box_class_probs \<and> length boxes = length box_class_probs
      \<and> list_all (\<lambda>row. row \<noteq> [] \<and> length row = length (hd box_class_probs)) box_class_probs)"

text \<open>
  \<^verbatim>\<open>
  def yolo_filter_boxes(box_confidence, boxes, box_class_probs, threshold = .6):
      box_scores = box_confidence*box_class_probs
      box_classes = K.argmax(box_scores,axis = -1)
      box_class_scores = K.max(box_scores,axis = -1,keepdims=False)
      filtering_mask =(box_class_scores>=threshold)
      scores = tf.boolean_mask(box_class_scores, filtering_mask)
      boxes = tf.boolean_mask(boxes, filtering_mask)
      classes = tf.boolean_mask(box_classes, filtering_mask)
      return scores, boxes, classes
  \<close>
\<close>

definition yolo_filter_boxes ::
  "real list \<Rightarrow> box list \<Rightarrow> real list list \<Rightarrow> real \<Rightarrow> error + (real list \<times> box list \<times> nat list)" where
  "yolo_filter_boxes box_confidence boxes box_class_probs threshold =
     (if \<not> compatible_shapes box_confidence boxes box_class_probs then Inl ShapeError
      else
        let box_scores = broadcast_mul box_confidence box_class_probs;
            box_classes = K_argmax box_scores;
            box_class_scores = K_max box_scores;
            filtering_mask = map (\<lambda>s. s \<ge> threshold) box_class_scores;
            scores = boolean_mask box_class_scores filtering_mask;
            boxes' = boolean_mask boxes filtering_mask;
            classes = boolean_mask box_classes filtering_mask
        in Inr (scores, boxes', classes))"

text \<open>
  Vocabulary for the statements about the filter. The score of box \<open>i\<close> for a class is its
  confidence times the probability of the class; \<open>box_max_score\<close> is the largest of them,
  \<open>box_best_class\<close> the first class that reaches it, and \<open>retained\<close> lists, in increasing
  order, the boxes whose largest score is at least the threshold.
\<close>

definition box_max_score :: "real list \<Rightarrow> real list list \<Rightarrow> nat \<Rightarrow> real" where
  "box_max_score box_confidence box_class_probs i =
     Max ((\<lambda>p. box_confidence ! i * p) ` set (box_class_probs ! i))"

definition box_best_class :: "real list \<Rightarrow> real list list \<Rightarrow> nat \<Rightarrow> nat" where
  "box_best_class box_confidence box_class_probs i =
     argmax_row (map (\<lambda>p. box_confidence ! i * p) (box_class_probs ! i))"

definition retained :: "real list \<Rightarrow> real list list \<Rightarrow> real \<Rightarrow> nat list" where
  "retained box_confidence box_class_probs threshold =
     filter (\<lambda>i. threshold \<le> box_max_score box_confidence box_class_probs i)
       [0..<length box_class_probs]"

section \<open>Non-max suppression\<close>

text \<open>
  Modelled from the spec: \<open>tf.image.non_max_suppression\<close> belongs to TensorFlow and is
  absent from the sources. The model follows the specification, section 4.3: it
  "selects indices greedily by descending score, discarding any later box whose IoU with
  an already-kept box exceeds the threshold, stopping at max count". The overlap measure
  of the library is the parameter \<open>overlap\<close>; the maximum is a count. The library rejects
  a score vector and a box tensor of different lengths.
\<close>

fun nms_select ::
  "(box \<Rightarrow> box \<Rightarrow> real) \<Rightarrow> box list \<Rightarrow> real \<Rightarrow> nat \<Rightarrow> nat list \<Rightarrow> nat list \<Rightarrow> nat list" where
  "nms_select overlap boxes iou_threshold max_output_size [] selected = selected"
| "nms_select overlap boxes iou_threshold max_output_size (i # candidates) selected =
     (if max_output_size \<le> length selected then selected
      else if list_ex (\<lambda>j. iou_threshold < overlap (boxes ! i) (boxes ! j)) selected
      then nms_select overlap boxes iou_threshold max_output_size candidates selected
      else nms_select overlap boxes iou_threshold max_output_size candidates (selected @ [i]))"

text \<open>
  Modelled from the spec: the entry point of \<open>tf.image.non_max_suppression\<close>, absent
  from the sources as well. The candidates are the positions of the boxes by descending
  score (section 4.3); the result is the list of the positions selected.
\<close>

definition non_max_suppression ::
  "(box \<Rightarrow> box \<Rightarrow> real) \<Rightarrow> box list \<Rightarrow> real list \<Rightarrow> nat \<Rightarrow> real \<Rightarrow> error + nat list" where
  "non_max_suppression overlap boxes scores max_output_size iou_threshold =
     (if length boxes \<noteq> length scores then Inl ShapeError
      else Inr (nms_select overlap boxes iou_threshold max_output_size
                  (sort_key (\<lambda>i. - (scores ! i)) [0..<length scores]) []))"

text \<open>
  The Keras session holds the variables that calls have initialised, the latest first.
\<close>

type_synonym session = "int list"

text \<open>
  \<^verbatim>\<open>
  def yolo_non_max_suppression(scores, boxes, classes, max_boxes = 10, iou_threshold = 0.5):
      max_boxes_tensor = K.variable(max_boxes, dtype='int32')
      K.get_session().run(tf.variables_initializer([max_boxes_tensor]))
      nms_indices = tf.image.non_max_suppression(boxes,scores,max_boxes,iou_threshold)
      scores = K.gather(scores,nms_indices)
      boxes = K.gather(boxes,nms_indices)
      classes = K.gather(classes,nms_indices)
      return scores, boxes, classes
  \<close>
  The variable \<open>max_boxes_tensor\<close> is initialised in the session and not used again: the
  selection receives \<open>max_boxes\<close> itself.
\<close>

definition yolo_non_max_suppression ::
  "(box \<Rightarrow> box \<Rightarrow> real) \<Rightarrow> session \<Rightarrow> real list \<Rightarrow> box list \<Rightarrow> 'c list \<Rightarrow> nat \<Rightarrow> real
     \<Rightarrow> (error + (real list \<times> box list \<times> 'c list)) \<times> session" where
  "yolo_non_max_suppression overlap sess scores boxes classes max_boxes iou_threshold =
     (let max_boxes_tensor = int max_boxes;
          sess' = max_boxes_tensor # sess
      in (case non_max_suppression overlap boxes scores max_boxes iou_threshold of
            Inl e \<Rightarrow> Inl e
          | Inr nms_indices \<Rightarrow>
              (case K_gather scores nms_indices of
                 Inl e \<Rightarrow> Inl e
               | Inr scores' \<Rightarrow>
                   (case K_gather boxes nms_indices of
                      Inl e \<Rightarrow> Inl e
                    | Inr boxes' \<Rightarrow>
                        (case K_gather classes nms_indices of
                           Inl e \<Rightarrow> Inl e
                         | Inr classes' \<Rightarrow> Inr (scores', boxes', classes')))),
          sess'))"

section \<open>Evaluation\<close>

text \<open>
  \<^verbatim>\<open>
  def yolo_eval(yolo_outputs, image_shape = (720., 1280.), max_boxes=10, score_threshold=.6, iou_threshold=.5):
      box_confidence, box_xy, box_wh, box_class_probs = yolo_outputs
      boxes = yolo_boxes_to_corners(box_xy, box_wh)
      scores, boxes, classes = yolo_filter_boxes(box_confidence, boxes, box_class_probs,threshold=score_threshold)
      boxes = scale_boxes(boxes, image_shape)
      scores, boxes, classes = yolo_non_max_suppression(scores, boxes, classes, max_boxes = max_boxes, iou_threshold = iou_threshold)
      return scores, boxes, classes
  \<close>
  \<open>yolo_boxes_to_corners\<close> and \<open>scale_boxes\<close> are imported from \<open>yad2k\<close> and
  \<open>yolo_utils\<close>; they are parameters of the model, as is the overlap measure of the
  library's selection.
\<close>

definition yolo_eval ::
  "(box \<Rightarrow> box \<Rightarrow> real) \<Rightarrow> ('xy \<Rightarrow> 'wh \<Rightarrow> box list) \<Rightarrow> (box list \<Rightarrow> 'shape \<Rightarrow> box list) \<Rightarrow> session
     \<Rightarrow> real list \<times> 'xy \<times> 'wh \<times> real list list \<Rightarrow> 'shape \<Rightarrow> nat \<Rightarrow> real \<Rightarrow> real
     \<Rightarrow> (error + (real list \<times> box list \<times> nat list)) \<times> session" where
  "yolo_eval overlap yolo_boxes_to_corners scale_boxes sess yolo_outputs image_shape max_boxes
       score_threshold iou_threshold =
     (case yolo_outputs of (box_confidence, box_xy, box_wh, box_class_probs) \<Rightarrow>
        let boxes = yolo_boxes_to_corners box_xy box_wh
        in (case yolo_filter_boxes box_confidence boxes box_class_probs score_threshold of
              Inl e \<Rightarrow> (Inl e, sess)
            | Inr (scores, boxes1, classes) \<Rightarrow>
                let boxes2 = scale_boxes boxes1 image_shape
                in yolo_non_max_suppression overlap sess scores boxes2 classes max_boxes iou_threshold))"

text \<open>
  The specification's account of the same function (section 4.4): the chain corner
  conversion, score filter, coordinate rescale, non-max suppression, each stage applied
  to the result of the one before; a stage that fails ends the chain. The chain has no
  session argument: its last stage runs in an empty one.
\<close>

definition on_success :: "('a \<Rightarrow> error + 'b) \<Rightarrow> error + 'a \<Rightarrow> error + 'b" where
  "on_success stage r = (case r of Inl e \<Rightarrow> Inl e | Inr v \<Rightarrow> stage v)"

definition yolo_eval_spec ::
  "(box \<Rightarrow> box \<Rightarrow> real) \<Rightarrow> ('xy \<Rightarrow> 'wh \<Rightarrow> box list) \<Rightarrow> (box list \<Rightarrow> 'shape \<Rightarrow> box list)
     \<Rightarrow> real list \<times> 'xy \<times> 'wh \<times> real list list \<Rightarrow> 'shape \<Rightarrow> nat \<Rightarrow> real \<Rightarrow> real
     \<Rightarrow> error + (real list \<times> box list \<times> nat list)" where
  "yolo_eval_spec overlap yolo_boxes_to_corners scale_boxes yolo_outputs image_shape max_boxes
       score_threshold iou_threshold =
     (case yolo_outputs of (box_confidence, box_xy, box_wh, box_class_probs) \<Rightarrow>
        on_success
          (\<lambda>(scores, boxes, classes).
             fst (yolo_non_max_suppression overlap [] scores boxes classes max_boxes iou_threshold))
          (on_success
             (\<lambda>(scores, boxes, classes). Inr (scores, scale_boxes boxes image_shape, classes))
             (yolo_filter_boxes box_confidence (yolo_boxes_to_corners box_xy box_wh)
                box_class_probs score_threshold)))"

section \<open>Triplet loss\<close>

text \<open>
  An encoding tensor of shape \<open>(m, 128)\<close> is the list of its \<open>m\<close> rows of finite
  float32 numbers. \<open>tf.subtract\<close> takes operands of one shape (the documented shapes are
  equal; broadcasting is not modelled) and rejects others with \<open>ShapeError\<close>. Every
  operation is that of float32.
\<close>

definition tf_subtract :: "real list list \<Rightarrow> real list list \<Rightarrow> error + fl list list" where
  "tf_subtract a b =
     (if map length a = map length b
      then Inr (map2 (map2 (\<lambda>u v. fl_sub binary32 (Fin u) (Fin v))) a b)
      else Inl ShapeError)"

definition tf_subtract_vec :: "fl list \<Rightarrow> fl list \<Rightarrow> error + fl list" where
  "tf_subtract_vec a b =
     (if length a = length b then Inr (map2 (\<lambda>u v. fl_sub binary32 u v) a b) else Inl ShapeError)"

definition tf_square :: "fl list list \<Rightarrow> fl list list" where
  "tf_square t = map (map (\<lambda>v. fl_mul binary32 v v)) t"

text \<open>
  \<open>tf.reduce_sum\<close> adds the entries of a row in an order that TensorFlow chooses. The
  reduction is a parameter \<open>reduce_sum\<close> of the model; \<open>sum_in_order\<close> is the one that
  adds from left to right, and \<open>sums_like_additions\<close> states what every order of float32
  additions guarantees: a sum of non-negative entries (infinity included) is
  non-negative, and a sum of entries that are non-negative or NaN is non-negative or NaN.
\<close>

definition sum_in_order :: "fl list \<Rightarrow> fl" where
  "sum_in_order row = foldl (fl_add binary32) (Fin 0) row"

definition sums_like_additions :: "(fl list \<Rightarrow> fl) \<Rightarrow> bool" where
  "sums_like_additions reduce_sum =
     ((\<forall>row. (\<forall>x \<in> set row. fl_nonneg x) \<longrightarrow> fl_nonneg (reduce_sum row))
      \<and> (\<forall>row. (\<forall>x \<in> set row. x = NaN \<or> fl_nonneg x) \<longrightarrow>
             reduce_sum row = NaN \<or> fl_nonneg (reduce_sum row)))"

text \<open>\<open>tf.reduce_sum(t, axis=-1)\<close>: the sum of each row.\<close>

definition reduce_sum_last :: "(fl list \<Rightarrow> fl) \<Rightarrow> fl list list \<Rightarrow> fl list" where
  "reduce_sum_last reduce_sum t = map reduce_sum t"

text \<open>\<open>tf.maximum(x, y)\<close>: \<open>y\<close> when \<open>x < y\<close> and \<open>x\<close> otherwise, so that a NaN in \<open>x\<close> stays.\<close>

definition tf_maximum :: "fl \<Rightarrow> fl \<Rightarrow> fl" where
  "tf_maximum x y = (if fl_less x y then y else x)"

text \<open>
  \<^verbatim>\<open>
  def triplet_loss(y_true, y_pred, alpha = 0.2):
      anchor, positive, negative = y_pred[0], y_pred[1], y_pred[2]
      pos_dist = tf.reduce_sum(tf.square(tf.subtract(anchor, positive)), axis=-1)
      neg_dist = tf.reduce_sum(tf.square(tf.subtract(anchor, negative)), axis=-1)
      basic_loss = tf.add(tf.subtract(pos_dist, neg_dist), alpha)
      loss = tf.reduce_sum(tf.maximum(basic_loss, 0.0))
      return loss
  \<close>
  \<open>y_pred\<close> is a Python list; reading its first three entries fails on a shorter one.
  The margin \<open>alpha\<close> is a Python float, converted to float32 when it is added.
\<close>

definition triplet_loss ::
  "(fl list \<Rightarrow> fl) \<Rightarrow> 'a \<Rightarrow> real list list list \<Rightarrow> real \<Rightarrow> error + fl" where
  "triplet_loss reduce_sum y_true y_pred alpha =
     (if length y_pred < 3 then Inl IndexError
      else
        let anchor = y_pred ! 0; positive = y_pred ! 1; negative = y_pred ! 2
        in (case tf_subtract anchor positive of
              Inl e \<Rightarrow> Inl e
            | Inr dp \<Rightarrow>
                let pos_dist = reduce_sum_last reduce_sum (tf_square dp)
                in (case tf_subtract anchor negative of
                      Inl e \<Rightarrow> Inl e
                    | Inr dn \<Rightarrow>
                        let neg_dist = reduce_sum_last reduce_sum (tf_square dn)
                        in (case tf_subtract_vec pos_dist neg_dist of
                              Inl e \<Rightarrow> Inl e
                            | Inr d \<Rightarrow>
                                let basic_loss = map (\<lambda>v. fl_add binary32 v (round_to binary32 alpha)) d;
                                    loss = reduce_sum (map (\<lambda>v. tf_maximum v (Fin 0)) basic_loss)
                                in Inr loss))))"

text \<open>The three encodings have one shape.\<close>

definition same_shapes :: "real list list \<Rightarrow> real list list \<Rightarrow> real list list \<Rightarrow> bool" where
  "same_shapes anchor positive negative =
     (map length positive = map length anchor \<and> map length negative = map length anchor)"

text \<open>
  The squared distance of two rows as the source computes it, and the condition that for
  no example both squared distances have overflowed to infinity.
\<close>

definition squared_distance :: "(fl list \<Rightarrow> fl) \<Rightarrow> real list \<Rightarrow> real list \<Rightarrow> fl" where
  "squared_distance reduce_sum u v =
     reduce_sum (map (\<lambda>d. fl_mul binary32 d d) (map2 (\<lambda>x y. fl_sub binary32 (Fin x) (Fin y)) u v))"

definition no_double_overflow ::
  "(fl list \<Rightarrow> fl) \<Rightarrow> real list list \<Rightarrow> real list list \<Rightarrow> real list list \<Rightarrow> bool" where
  "no_double_overflow reduce_sum anchor positive negative =
     list_all (\<lambda>(a, p, n). \<not> (squared_distance reduce_sum a p = PInf
                            \<and> squared_distance reduce_sum a n = PInf))
       (zip anchor (zip positive negative))"

section \<open>Properties of iou on exact numbers\<close>

lemma inter_area_self: "inter_area b b = box_area b"
  by (cases b) (simp add: Let_def mult.commute)

lemma union_area_self: "union_area b b = box_area b"
  by (simp add: union_area_def inter_area_self)

lemma box_area_pos: "non_degenerate b \<Longrightarrow> 0 < box_area b"
  by (cases b) simp

lemma inter_area_bounds:
  assumes "non_degenerate box1" and "intersecting box1 box2"
  shows "0 \<le> inter_area box1 box2 \<and> inter_area box1 box2 \<le> box_area box1"
proof (cases box1, cases box2)
  fix a0 a1 a2 a3 b0 b1 b2 b3 :: real
  assume b: "box1 = (a0, a1, a2, a3)" "box2 = (b0, b1, b2, b3)"
  from assms have h: "a0 < a2" "a1 < a3" "max a0 b0 \<le> min a2 b2" "max a1 b1 \<le> min a3 b3"
    using b by simp_all
  let ?w = "min a2 b2 - max a0 b0" and ?h = "min a3 b3 - max a1 b1"
  have w: "0 \<le> ?w" "?w \<le> a2 - a0" and hh: "0 \<le> ?h" "?h \<le> a3 - a1"
    using h by linarith+
  have "?h * ?w \<le> (a3 - a1) * (a2 - a0)"
    using w hh by (intro mult_mono) linarith+
  moreover have "0 \<le> ?h * ?w"
    using w hh by simp
  ultimately show ?thesis
    using b by (simp add: Let_def mult.commute)
qed

lemma iou_exact_self:
  assumes "non_degenerate b"
  shows "iou b b = Inr 1"
  using box_area_pos [OF assms] by (simp add: iou_def union_area_self inter_area_self)

lemma iou_exact_division:
  assumes "non_degenerate box1" and "non_degenerate box2" and "intersecting box1 box2"
  shows "0 < union_area box1 box2
         \<and> iou box1 box2 = Inr (inter_area box1 box2 / union_area box1 box2)"
proof -
  have "inter_area box1 box2 \<le> box_area box1" and "0 < box_area box2"
    using assms inter_area_bounds [of box1 box2] box_area_pos [of box2] by simp_all
  then have pos: "0 < union_area box1 box2"
    by (simp add: union_area_def)
  then show ?thesis by (simp add: iou_def)
qed

lemma iou_exact_zero_area: "box_area z = 0 \<Longrightarrow> iou z z = Inl ZeroDivisionError"
  by (simp add: iou_def union_area_self)

text \<open>
  C5: \<open>iou((2,1,4,3),(1,2,3,4))\<close> is \<open>1/7\<close>. The arguments are integers, so the areas are
  exact and the result is the binary64 number nearest to \<open>1/7\<close>, which is also the one
  that the decimal \<open>0.14285714285714285\<close> denotes.
\<close>

theorem iou_scenario:
  "iou (2, 1, 4, 3) (1, 2, 3, 4) = Inr (1 / 7)
   \<and> inter_area (2, 1, 4, 3) (1, 2, 3, 4) = 1
   \<and> union_area (2, 1, 4, 3) (1, 2, 3, 4) = 4 + 4 - 1
   \<and> nearest_binary64 (1 / 7) 5146971002709138 55
   \<and> nearest_binary64 0.14285714285714285 5146971002709138 55"
  by (simp add: iou_def union_area_def nearest_binary64_def Let_def)

text \<open>
  C3: the width and the height of the intersection are multiplied as they are, negative
  or not. There are two non-degenerate disjoint boxes, apart on the x axis only, whose
  \<open>iou\<close> is negative, hence outside the interval from 0 to 1.
\<close>

theorem iou_negative_for_disjoint_boxes:
  "\<exists>box1 box2 r. non_degenerate box1 \<and> non_degenerate box2 \<and> disjoint_boxes box1 box2
     \<and> apart_on_x_only box1 box2 \<and> inter_area box1 box2 < 0
     \<and> iou box1 box2 = Inr r \<and> r < 0 \<and> r \<notin> {0..1}"
proof -
  have "non_degenerate (0, 0, 1, 1) \<and> non_degenerate (2, 0, 3, 1)
      \<and> disjoint_boxes (0, 0, 1, 1) (2, 0, 3, 1) \<and> apart_on_x_only (0, 0, 1, 1) (2, 0, 3, 1)
      \<and> inter_area (0, 0, 1, 1) (2, 0, 3, 1) < 0
      \<and> iou (0, 0, 1, 1) (2, 0, 3, 1) = Inr (- 1 / 3)
      \<and> (- 1 / 3 :: real) < 0 \<and> (- 1 / 3 :: real) \<notin> {0..1}"
    by (simp add: iou_def union_area_def Let_def)
  then show ?thesis by blast
qed

section \<open>Properties of rounding\<close>

lemma pow2_powr: "pow2 k = 2 powr real_of_int k"
  by (simp add: pow2_def powr_real_of_int inverse_eq_divide)

lemma exponent_up_log: "1 \<le> x \<Longrightarrow> int (exponent_up x) = \<lfloor>log 2 x\<rfloor>"
proof (induction x rule: exponent_up.induct)
  case (1 x)
  show ?case
  proof (cases "x < 2")
    case True
    then have "\<lfloor>log 2 x\<rfloor> = 0"
      using "1.prems" floor_log_eq_powr_iff [of x 2 0] by simp
    then show ?thesis using True by simp
  next
    case False
    then have h: "1 \<le> x / 2" "0 < x" by simp_all
    have "log 2 (x / 2) = log 2 x - 1"
      using h(2) by (simp add: log_divide)
    then have "\<lfloor>log 2 (x / 2)\<rfloor> = \<lfloor>log 2 x\<rfloor> - 1"
      by simp
    then show ?thesis
      using False "1.IH" [OF False h(1)] by (simp del: exponent_up.simps add: exponent_up.simps [of x])
  qed
qed

lemma exponent_down_log: "0 < x \<Longrightarrow> x < 1 \<Longrightarrow> - int (exponent_down x) = \<lfloor>log 2 x\<rfloor>"
proof (induction x rule: exponent_down.induct)
  case (1 x)
  have nx: "\<not> (1 \<le> x \<or> x \<le> 0)" using "1.prems" by simp
  have l: "log 2 (2 * x) = log 2 x + 1"
    using "1.prems" by (simp add: log_mult)
  show ?case
  proof (cases "2 * x < 1")
    case True
    then have "- int (exponent_down (2 * x)) = \<lfloor>log 2 (2 * x)\<rfloor>"
      using "1.IH" [OF nx] "1.prems" by simp
    then have "- int (exponent_down (2 * x)) = \<lfloor>log 2 x\<rfloor> + 1"
      unfolding l by simp
    then show ?thesis
      using nx by (simp del: exponent_down.simps add: exponent_down.simps [of x])
  next
    case False
    then have "exponent_down (2 * x) = 0" by simp
    moreover have "\<lfloor>log 2 x\<rfloor> = - 1"
      using False "1.prems" floor_log_eq_powr_iff [of x 2 "- 1"] by (simp add: powr_minus)
    ultimately show ?thesis
      using nx by (simp del: exponent_down.simps add: exponent_down.simps [of x])
  qed
qed

text \<open>The exponent is the integer part of the binary logarithm.\<close>

lemma float_exponent_log: "float_exponent x = \<lfloor>log 2 \<bar>x\<bar>\<rfloor>"
proof (cases "x = 0")
  case True
  then show ?thesis by (simp add: float_exponent_def log_def ln_0)
next
  case False
  then show ?thesis
    using exponent_up_log [of "\<bar>x\<bar>"] exponent_down_log [of "\<bar>x\<bar>"]
    by (simp add: float_exponent_def)
qed

lemma ulp_exp_log:
  "ulp_exp f x = max (\<lfloor>log 2 \<bar>x\<bar>\<rfloor> - int (fst f) + 1) (3 - snd f - int (fst f))"
  by (simp add: ulp_exp_def float_exponent_log)

lemma grid_round_powr:
  "grid_round f x =
     (let u = 2 powr real_of_int (ulp_exp f x)
      in real_of_int (round_half_even (x / u)) * u)"
  by (simp add: grid_round_def pow2_powr)

lemma round_to_powr:
  "round_to f x =
     (let y = grid_round f x
      in if 2 powr real_of_int (snd f) \<le> \<bar>y\<bar> then (if 0 < x then PInf else NInf) else Fin y)"
  by (simp add: round_to_def pow2_powr)

lemma rhe_of_int: "round_half_even (of_int n) = n"
  by (simp add: round_half_even_def)

lemma rhe_cases: "round_half_even x = \<lfloor>x\<rfloor> \<or> round_half_even x = \<lfloor>x\<rfloor> + 1"
  by (simp add: round_half_even_def Let_def)

lemma rhe_mono:
  assumes "x \<le> y"
  shows "round_half_even x \<le> round_half_even y"
proof (cases "\<lfloor>x\<rfloor> < \<lfloor>y\<rfloor>")
  case True
  then show ?thesis
    using rhe_cases [of x] rhe_cases [of y] by linarith
next
  case False
  then have eq: "\<lfloor>x\<rfloor> = \<lfloor>y\<rfloor>"
    using floor_mono [OF assms] by linarith
  then show ?thesis
    using assms by (auto simp: round_half_even_def Let_def)
qed

lemma rhe_minus: "round_half_even (- x) = - round_half_even x"
proof (cases "x \<in> \<int>")
  case True
  then obtain n where "x = of_int n" by (auto elim: Ints_cases)
  then show ?thesis
    using rhe_of_int [of n] rhe_of_int [of "- n"] by simp
next
  case False
  then have "x \<noteq> of_int \<lfloor>x\<rfloor>"
    by (metis Ints_of_int)
  then have fl: "\<lfloor>- x\<rfloor> = - \<lfloor>x\<rfloor> - 1"
    by (simp add: floor_minus ceiling_altdef)
  show ?thesis
    unfolding round_half_even_def Let_def fl by auto
qed

lemma rhe_ge: "real_of_int n \<le> x \<Longrightarrow> real_of_int n \<le> real_of_int (round_half_even x)"
  using rhe_mono [of "real_of_int n" x] by (simp add: rhe_of_int)

lemma rhe_le: "x \<le> real_of_int n \<Longrightarrow> real_of_int (round_half_even x) \<le> real_of_int n"
  using rhe_mono [of x "real_of_int n"] by (simp add: rhe_of_int)

lemma two_powr_quot:
  assumes "k \<le> e"
  shows "2 powr real_of_int e / 2 powr real_of_int k = real_of_int (2 ^ nat (e - k))"
proof -
  have "2 powr real_of_int e / 2 powr real_of_int k = 2 powr real_of_int (e - k)"
    using powr_diff [of 2 "real_of_int e" "real_of_int k"] by simp
  also have "\<dots> = real_of_int (2 ^ nat (e - k))"
    using assms powr_real_of_int [of 2 "e - k"] by simp
  finally show ?thesis .
qed

lemma grid_above:
  assumes "2 powr real_of_int e \<le> z" and "k \<le> e"
  shows "2 powr real_of_int e
           \<le> real_of_int (round_half_even (z / 2 powr real_of_int k)) * 2 powr real_of_int k"
proof -
  define u :: real where "u = 2 powr real_of_int k"
  define N :: int where "N = 2 ^ nat (e - k)"
  have u: "0 < u" by (simp add: u_def)
  have q: "2 powr real_of_int e / u = real_of_int N"
    unfolding u_def N_def by (rule two_powr_quot [OF assms(2)])
  have "2 powr real_of_int e / u \<le> z / u"
    using assms(1) u by (simp add: divide_right_mono)
  then have "real_of_int N \<le> real_of_int (round_half_even (z / u))"
    unfolding q by (rule rhe_ge)
  then have "real_of_int N * u \<le> real_of_int (round_half_even (z / u)) * u"
    using u by (intro mult_right_mono) simp_all
  moreover have "real_of_int N * u = 2 powr real_of_int e"
    using q u by (simp add: field_simps)
  ultimately have "2 powr real_of_int e \<le> real_of_int (round_half_even (z / u)) * u"
    by linarith
  then show ?thesis unfolding u_def .
qed

lemma grid_below:
  assumes "z \<le> 2 powr real_of_int e" and "k \<le> e"
  shows "real_of_int (round_half_even (z / 2 powr real_of_int k)) * 2 powr real_of_int k
           \<le> 2 powr real_of_int e"
proof -
  define u :: real where "u = 2 powr real_of_int k"
  define N :: int where "N = 2 ^ nat (e - k)"
  have u: "0 < u" by (simp add: u_def)
  have q: "2 powr real_of_int e / u = real_of_int N"
    unfolding u_def N_def by (rule two_powr_quot [OF assms(2)])
  have "z / u \<le> 2 powr real_of_int e / u"
    using assms(1) u by (simp add: divide_right_mono)
  then have "real_of_int (round_half_even (z / u)) \<le> real_of_int N"
    unfolding q by (rule rhe_le)
  then have "real_of_int (round_half_even (z / u)) * u \<le> real_of_int N * u"
    using u by (intro mult_right_mono) simp_all
  moreover have "real_of_int N * u = 2 powr real_of_int e"
    using q u by (simp add: field_simps)
  ultimately have "real_of_int (round_half_even (z / u)) * u \<le> 2 powr real_of_int e"
    by linarith
  then show ?thesis unfolding u_def .
qed

lemma floor_log_bounds:
  assumes "0 < x"
  shows "2 powr real_of_int \<lfloor>log 2 x\<rfloor> \<le> x" and "x < 2 powr real_of_int (\<lfloor>log 2 x\<rfloor> + 1)"
  using floor_log_eq_powr_iff [of x 2 "\<lfloor>log 2 x\<rfloor>"] assms by simp_all

lemma grid_round_mono_pos:
  assumes p: "0 < fst f" and x: "0 < x" and xy: "x \<le> y"
  shows "grid_round f x \<le> grid_round f y"
proof -
  define ex ey kx ky where "ex = \<lfloor>log 2 x\<rfloor>" and "ey = \<lfloor>log 2 y\<rfloor>"
    and "kx = ulp_exp f x" and "ky = ulp_exp f y"
  have y: "0 < y" using x xy by simp
  have "log 2 x \<le> log 2 y" using x xy by simp
  then have exy: "ex \<le> ey" unfolding ex_def ey_def by (rule floor_mono)
  have kx: "kx = max (ex - int (fst f) + 1) (3 - snd f - int (fst f))"
    and ky: "ky = max (ey - int (fst f) + 1) (3 - snd f - int (fst f))"
    using x y by (simp_all add: kx_def ky_def ex_def ey_def ulp_exp_log)
  have gx: "grid_round f x = real_of_int (round_half_even (x / 2 powr real_of_int kx)) * 2 powr real_of_int kx"
    and gy: "grid_round f y = real_of_int (round_half_even (y / 2 powr real_of_int ky)) * 2 powr real_of_int ky"
    by (simp_all add: grid_round_powr Let_def kx_def ky_def)
  have kxy: "kx \<le> ky" using exy kx ky by simp
  show ?thesis
  proof (cases "kx = ky")
    case True
    have "x / 2 powr real_of_int ky \<le> y / 2 powr real_of_int ky"
      using xy by (simp add: divide_right_mono)
    then have "round_half_even (x / 2 powr real_of_int ky)
        \<le> round_half_even (y / 2 powr real_of_int ky)"
      by (rule rhe_mono)
    then show ?thesis
      unfolding gx gy True by (simp add: mult_right_mono)
  next
    case False
    then have lt: "kx < ky" using kxy by simp
    then have kyv: "ky = ey - int (fst f) + 1" and exlt: "ex < ey"
      using kx ky by linarith+
    have kye: "ky \<le> ey" using kyv p by simp
    have hi: "2 powr real_of_int ey \<le> grid_round f y"
      unfolding gy using floor_log_bounds(1) [OF y] kye
      by (intro grid_above) (simp_all add: ey_def)
    have "x < 2 powr real_of_int (ex + 1)"
      unfolding ex_def by (rule floor_log_bounds(2) [OF x])
    also have "\<dots> \<le> 2 powr real_of_int ey"
      using exlt by (simp add: powr_mono)
    finally have xb: "x \<le> 2 powr real_of_int ey" by simp
    have "kx \<le> ey" using lt kye by simp
    then have lo: "grid_round f x \<le> 2 powr real_of_int ey"
      unfolding gx using xb by (intro grid_below)
    show ?thesis using lo hi by linarith
  qed
qed

lemma grid_round_zero: "grid_round f 0 = 0"
  by (simp add: grid_round_powr rhe_of_int [of 0, simplified])

lemma ulp_exp_minus: "ulp_exp f (- x) = ulp_exp f x"
  by (simp add: ulp_exp_log)

lemma grid_round_minus: "grid_round f (- x) = - grid_round f x"
  by (simp add: grid_round_powr Let_def ulp_exp_minus rhe_minus)

lemma grid_round_nonneg: "0 \<le> x \<Longrightarrow> 0 \<le> grid_round f x"
proof -
  assume "0 \<le> x"
  then have "0 \<le> x / 2 powr real_of_int (ulp_exp f x)" by simp
  then have "0 \<le> round_half_even (x / 2 powr real_of_int (ulp_exp f x))"
    using rhe_mono [of 0 "x / 2 powr real_of_int (ulp_exp f x)"] rhe_of_int [of 0] by simp
  then show ?thesis by (simp add: grid_round_powr Let_def)
qed

lemma grid_round_mono:
  assumes "0 < fst f" and "x \<le> y"
  shows "grid_round f x \<le> grid_round f y"
proof -
  consider "0 < x" | "x \<le> 0" "0 \<le> y" | "y < 0" by linarith
  then show ?thesis
  proof cases
    case 1
    then show ?thesis using grid_round_mono_pos assms by simp
  next
    case 2
    then have "grid_round f x \<le> 0" "0 \<le> grid_round f y"
      using grid_round_nonneg [of "- x" f] grid_round_nonneg [of y f]
      by (simp_all add: grid_round_minus)
    then show ?thesis by simp
  next
    case 3
    then have "grid_round f (- y) \<le> grid_round f (- x)"
      using grid_round_mono_pos [of f "- y" "- x"] assms by simp
    then show ?thesis by (simp add: grid_round_minus)
  qed
qed


lemma ulp_exp_ge: "3 - snd f - int (fst f) \<le> ulp_exp f x"
  by (simp add: ulp_exp_log)

lemma grid_round_fixed_strict:
  assumes a: "a = real_of_int m * 2 powr real_of_int k" and m: "\<bar>m\<bar> < 2 ^ fst f"
    and k: "3 - snd f - int (fst f) \<le> k"
  shows "grid_round f a = a"
proof (cases "m = 0")
  case True
  then show ?thesis using a by (simp add: grid_round_zero)
next
  case False
  define ke where "ke = ulp_exp f a"
  have apos: "0 < \<bar>a\<bar>" using False a by simp
  have "\<bar>a\<bar> = real_of_int \<bar>m\<bar> * 2 powr real_of_int k"
    using a by (simp add: abs_mult)
  also have "\<dots> < real_of_int (2 ^ fst f) * 2 powr real_of_int k"
  proof -
    have "real_of_int \<bar>m\<bar> < real_of_int (2 ^ fst f)"
      using m by (simp only: of_int_less_iff)
    then show ?thesis by (intro mult_strict_right_mono) simp_all
  qed
  also have "\<dots> = 2 powr real_of_int (int (fst f) + k)"
    by (simp add: powr_add powr_realpow)
  finally have "log 2 \<bar>a\<bar> < real_of_int (int (fst f) + k)"
    using apos by (simp add: log_less_iff)
  then have "\<lfloor>log 2 \<bar>a\<bar>\<rfloor> < int (fst f) + k"
    by (simp add: floor_less_iff)
  then have kek: "ke \<le> k"
    using k by (simp add: ke_def ulp_exp_log)
  have "a / 2 powr real_of_int ke = real_of_int m * (2 powr real_of_int k / 2 powr real_of_int ke)"
    using a by simp
  also have "\<dots> = real_of_int (m * 2 ^ nat (k - ke))"
    using two_powr_quot [OF kek] by simp
  finally have "round_half_even (a / 2 powr real_of_int ke) = m * 2 ^ nat (k - ke)"
    by (simp only: rhe_of_int)
  then have "grid_round f a = real_of_int (m * 2 ^ nat (k - ke)) * 2 powr real_of_int ke"
    by (simp add: grid_round_powr Let_def ke_def)
  also have "\<dots> = real_of_int m * (real_of_int (2 ^ nat (k - ke)) * 2 powr real_of_int ke)"
    by simp
  also have "real_of_int (2 ^ nat (k - ke)) * 2 powr real_of_int ke = 2 powr real_of_int k"
    using two_powr_quot [OF kek] by (simp add: field_simps)
  finally show ?thesis using a by simp
qed

lemma grid_round_fixed:
  assumes p: "0 < fst f" and a: "a = real_of_int m * 2 powr real_of_int k"
    and m: "\<bar>m\<bar> \<le> 2 ^ fst f" and k: "3 - snd f - int (fst f) \<le> k"
  shows "grid_round f a = a"
proof (cases "\<bar>m\<bar> < 2 ^ fst f")
  case True
  then show ?thesis using grid_round_fixed_strict [OF a _ k] by simp
next
  case False
  then have eq: "\<bar>m\<bar> = 2 ^ fst f" using m by simp
  obtain q where q: "fst f = Suc q" using p by (cases "fst f") simp_all
  define m' where "m' = (if 0 \<le> m then (2::int) ^ q else - (2 ^ q))"
  have mm: "m = 2 * m'" using eq q by (auto simp: m'_def abs_if split: if_splits)
  have "a = real_of_int m' * 2 powr real_of_int (k + 1)"
    using a mm by (simp add: powr_add)
  moreover have "\<bar>m'\<bar> < 2 ^ fst f" by (simp add: m'_def q)
  ultimately show ?thesis
    using grid_round_fixed_strict [of a m' "k + 1" f] k by simp
qed

lemma grid_round_form:
  "\<exists>n. grid_round f x = real_of_int n * 2 powr real_of_int (ulp_exp f x) \<and> \<bar>n\<bar> \<le> 2 ^ fst f"
proof -
  define ke where "ke = ulp_exp f x"
  define u where "u = 2 powr real_of_int ke"
  define n where "n = round_half_even (x / u)"
  have u: "0 < u" by (simp add: u_def)
  have g: "grid_round f x = real_of_int n * u"
    by (simp add: grid_round_powr Let_def n_def u_def ke_def)
  have bound: "\<bar>x\<bar> / u \<le> real_of_int (2 ^ fst f)"
  proof (cases "x = 0")
    case True
    then show ?thesis by simp
  next
    case False
    then have xp: "0 < \<bar>x\<bar>" by simp
    have "\<lfloor>log 2 \<bar>x\<bar>\<rfloor> + 1 \<le> ke + int (fst f)"
      by (simp add: ke_def ulp_exp_log)
    then have "2 powr real_of_int (\<lfloor>log 2 \<bar>x\<bar>\<rfloor> + 1) \<le> 2 powr real_of_int (ke + int (fst f))"
      by (intro powr_mono) simp_all
    then have "\<bar>x\<bar> \<le> 2 powr real_of_int (ke + int (fst f))"
      using floor_log_bounds(2) [OF xp] by linarith
    also have "\<dots> = real_of_int (2 ^ fst f) * u"
      by (simp add: u_def powr_add powr_realpow)
    finally show ?thesis using u by (simp add: field_simps)
  qed
  have "x / u \<le> real_of_int (2 ^ fst f)" "real_of_int (- (2 ^ fst f)) \<le> x / u"
    using bound u by (simp_all add: abs_le_iff field_simps)
  then have "real_of_int n \<le> real_of_int (2 ^ fst f)" "real_of_int (- (2 ^ fst f)) \<le> real_of_int n"
    unfolding n_def using rhe_le [of "x / u" "2 ^ fst f"] rhe_ge [of "- (2 ^ fst f)" "x / u"]
    by blast+
  then have "\<bar>n\<bar> \<le> 2 ^ fst f" by linarith
  then show ?thesis using g by (auto simp: u_def ke_def)
qed

lemma round_to_float_form:
  assumes "round_to f x = Fin a"
  shows "float_form f a"
proof -
  from assms have a: "a = grid_round f x" and b: "\<bar>a\<bar> < 2 powr real_of_int (snd f)"
    by (auto simp: round_to_powr Let_def split: if_splits)
  obtain n where "grid_round f x = real_of_int n * 2 powr real_of_int (ulp_exp f x)"
    "\<bar>n\<bar> \<le> 2 ^ fst f"
    using grid_round_form by blast
  then show ?thesis
    unfolding float_form_def using a b ulp_exp_ge [of f x] by blast
qed

lemma round_to_fixed:
  assumes "0 < fst f" and "float_form f a"
  shows "round_to f a = Fin a"
proof -
  from assms(2) obtain m k where "a = real_of_int m * 2 powr real_of_int k" "\<bar>m\<bar> \<le> 2 ^ fst f"
    "3 - snd f - int (fst f) \<le> k" and b: "\<bar>a\<bar> < 2 powr real_of_int (snd f)"
    unfolding float_form_def by blast
  then have "grid_round f a = a"
    using grid_round_fixed [OF assms(1)] by blast
  then show ?thesis using b by (simp add: round_to_powr)
qed

lemma round_to_not_NaN: "round_to f x \<noteq> NaN"
  by (simp add: round_to_powr Let_def)

lemma round_to_mono:
  assumes p: "0 < fst f" and xy: "x \<le> y"
  shows "fl_le (round_to f x) (round_to f y)"
proof -
  have g: "grid_round f x \<le> grid_round f y" by (rule grid_round_mono [OF p xy])
  have sx: "0 < x \<Longrightarrow> 0 \<le> grid_round f x" and sy: "\<not> 0 < y \<Longrightarrow> grid_round f y \<le> 0"
    using grid_round_nonneg [of x f] grid_round_nonneg [of "- y" f]
    by (simp_all add: grid_round_minus)
  have t: "0 < 2 powr real_of_int (snd f)" by simp
  show ?thesis
    using g sx sy t xy unfolding round_to_powr Let_def
    by (auto simp: abs_if split: if_splits)
qed


lemma fst_binary64 [simp]: "fst binary64 = 53" and snd_binary64 [simp]: "snd binary64 = 1024"
  by (simp_all add: binary64_def)

lemma fst_binary32 [simp]: "fst binary32 = 24" and snd_binary32 [simp]: "snd binary32 = 128"
  by (simp_all add: binary32_def)

lemma representable_iff: "0 < fst f \<Longrightarrow> representable f a \<longleftrightarrow> float_form f a"
  using round_to_fixed [of f a] round_to_float_form [of f a a] by (auto simp: representable_def)

lemma float_form_zero: "float_form f 0"
  unfolding float_form_def
  by (rule exI [of _ 0], rule exI [of _ "3 - snd f - int (fst f)"]) simp

lemma float_formI:
  assumes "a = real_of_int m * 2 powr real_of_int k" and "\<bar>m\<bar> \<le> 2 ^ fst f"
    and "3 - snd f - int (fst f) \<le> k" and "\<bar>a\<bar> < 2 powr real_of_int (snd f)"
  shows "float_form f a"
  unfolding float_form_def using assms by blast

lemma float_form_double:
  assumes "float_form f a" and "2 * \<bar>a\<bar> < 2 powr real_of_int (snd f)"
  shows "float_form f (2 * a)"
proof -
  from assms(1) obtain m k where a: "a = real_of_int m * 2 powr real_of_int k"
    and m: "\<bar>m\<bar> \<le> 2 ^ fst f" and k: "3 - snd f - int (fst f) \<le> k"
    unfolding float_form_def by blast
  have "2 * a = real_of_int m * 2 powr real_of_int (k + 1)"
    using a by (simp add: powr_add)
  then show ?thesis
    using m k assms(2) by (intro float_formI [of _ m "k + 1"]) simp_all
qed

lemma round_to_zero: "0 < fst f \<Longrightarrow> round_to f 0 = Fin 0"
  by (simp add: round_to_fixed float_form_zero)

lemma round_to_nonneg:
  assumes "0 < fst f" and "0 \<le> x"
  shows "fl_nonneg (round_to f x)"
  using round_to_mono [OF assms(1), of 0 x] assms round_to_zero [of f]
  by (cases "round_to f x") simp_all

lemma round_to_underflow:
  assumes p: "0 < fst f" and x: "0 \<le> x" and small: "x < 2 powr real_of_int (2 - snd f - int (fst f))"
  shows "round_to f x = Fin 0"
proof (cases "x = 0")
  case True
  then show ?thesis using p by (simp add: round_to_zero)
next
  case False
  define e where "e = 3 - snd f - int (fst f)"
  have xp: "0 < x" using x False by simp
  have e1: "2 - snd f - int (fst f) = e - 1" by (simp add: e_def)
  have xs: "x < 2 powr real_of_int (e - 1)" using small unfolding e1 .
  also have "\<dots> \<le> 2 powr real_of_int (e + int (fst f) - 1)"
    by (intro powr_mono) simp_all
  finally have "log 2 x < real_of_int (e + int (fst f) - 1)"
    using xp by (simp add: log_less_iff)
  then have "\<lfloor>log 2 x\<rfloor> < e + int (fst f) - 1"
    by (simp add: floor_less_iff)
  then have ke: "ulp_exp f x = e"
    using xp by (simp add: ulp_exp_log e_def)
  have "x / 2 powr real_of_int e < 2 powr real_of_int (e - 1) / 2 powr real_of_int e"
    using xs by (intro divide_strict_right_mono) simp_all
  also have "\<dots> = 1 / 2"
    using powr_diff [of 2 "real_of_int (e - 1)" "real_of_int e"] by simp
  finally have lt: "x / 2 powr real_of_int e < 1 / 2" .
  have q0: "real_of_int 0 \<le> x / 2 powr real_of_int e" using x by simp
  have q1: "x / 2 powr real_of_int e < real_of_int 0 + 1" using lt by linarith
  have "\<lfloor>x / 2 powr real_of_int e\<rfloor> = 0"
    using q0 q1 by (rule floor_unique)
  then have "round_half_even (x / 2 powr real_of_int e) = 0"
    using lt by (simp add: round_half_even_def)
  then have "grid_round f x = 0"
    by (simp add: grid_round_powr Let_def ke)
  then show ?thesis by (simp add: round_to_powr)
qed

lemma fl_mul_commute: "fl_mul f a b = fl_mul f b a"
  by (cases a; cases b) (simp_all add: mult.commute)

lemma fl_sub_Fin: "fl_sub f (Fin x) (Fin y) = round_to f (x - y)"
  by (simp add: fl_sub_def)

lemma float_form_dyadic:
  assumes "\<bar>m\<bar> \<le> 2 ^ fst f" and "3 - snd f - int (fst f) \<le> - int n"
    and "\<bar>real_of_int m / 2 ^ n\<bar> < 2 powr real_of_int (snd f)"
  shows "float_form f (real_of_int m / 2 ^ n)"
proof -
  have "real_of_int m / 2 ^ n = real_of_int m * 2 powr real_of_int (- int n)"
    by (simp add: powr_minus powr_realpow field_simps)
  then show ?thesis
    using assms by (intro float_formI [of _ m "- int n"]) simp_all
qed

lemma round_to_dyadic:
  assumes "0 < fst f" and "\<bar>m\<bar> \<le> 2 ^ fst f" and "3 - snd f - int (fst f) \<le> - int n"
    and "\<bar>real_of_int m / 2 ^ n\<bar> < 2 powr real_of_int (snd f)"
  shows "round_to f (real_of_int m / 2 ^ n) = Fin (real_of_int m / 2 ^ n)"
  using assms(1) float_form_dyadic [OF assms(2-4)] by (rule round_to_fixed)

lemma round_to_pow2:
  assumes "0 < fst f" and "3 - snd f - int (fst f) \<le> int n"
  shows "round_to f (2 ^ n) = (if int n < snd f then Fin (2 ^ n) else PInf)"
proof -
  have e: "(2::real) ^ n = real_of_int 1 * 2 powr real_of_int (int n)"
    by (simp add: powr_realpow)
  have g: "grid_round f (2 ^ n) = 2 ^ n"
    using grid_round_fixed [OF assms(1) e _ assms(2)] by simp
  have "(2 powr real_of_int (snd f) \<le> (2::real) ^ n) = (real_of_int (snd f) \<le> real_of_int (int n))"
    using powr_le_cancel_iff [of 2 "real_of_int (snd f)" "real n"] by (simp add: powr_realpow)
  then have "(2 powr real_of_int (snd f) \<le> (2::real) ^ n) = (snd f \<le> int n)"
    by (simp only: of_int_le_iff)
  then show ?thesis
    using g by (auto simp: round_to_powr)
qed

lemma round_to64_small:
  "round_to binary64 1 = Fin 1" "round_to binary64 2 = Fin 2" "round_to binary64 3 = Fin 3"
  "round_to binary64 4 = Fin 4" "round_to binary64 6 = Fin 6" "round_to binary64 7 = Fin 7"
  "round_to binary64 8 = Fin 8"
  using round_to_dyadic [of binary64 8 0] round_to_dyadic [of binary64 1 0] round_to_dyadic [of binary64 2 0]
    round_to_dyadic [of binary64 3 0] round_to_dyadic [of binary64 4 0]
    round_to_dyadic [of binary64 6 0] round_to_dyadic [of binary64 7 0]
  by simp_all

lemma round_to32_small:
  "round_to binary32 1 = Fin 1" "round_to binary32 2 = Fin 2" "round_to binary32 3 = Fin 3"
  "round_to binary32 4 = Fin 4" "round_to binary32 9 = Fin 9"
  "round_to binary32 (- 1) = Fin (- 1)" "round_to binary32 (- 2) = Fin (- 2)"
  "round_to binary32 (- 3) = Fin (- 3)" "round_to binary32 8 = Fin 8"
  "round_to binary32 (1 / 4) = Fin (1 / 4)" "round_to binary32 (33 / 4) = Fin (33 / 4)"
  "round_to binary32 (- (11 / 4)) = Fin (- (11 / 4))"
  using round_to_dyadic [of binary32 1 0] round_to_dyadic [of binary32 2 0]
    round_to_dyadic [of binary32 3 0] round_to_dyadic [of binary32 4 0]
    round_to_dyadic [of binary32 9 0] round_to_dyadic [of binary32 "- 1" 0]
    round_to_dyadic [of binary32 "- 2" 0] round_to_dyadic [of binary32 "- 3" 0]
    round_to_dyadic [of binary32 8 0]
    round_to_dyadic [of binary32 1 2] round_to_dyadic [of binary32 33 2]
    round_to_dyadic [of binary32 "- 11" 2]
  by simp_all

lemma float_form64_inverse_pow2:
  assumes "n \<le> 1074"
  shows "float_form binary64 (1 / 2 ^ n)"
proof -
  have "(1::real) / 2 ^ n \<le> 1" by simp
  also have "\<dots> < 2 powr 1024" by simp
  finally have b: "\<bar>real_of_int 1 / 2 ^ n\<bar> < 2 powr real_of_int (snd binary64)" by simp
  show ?thesis
    using float_form_dyadic [of 1 binary64 n, OF _ _ b] assms by simp
qed

lemma round_to64_inverse_pow2:
  "round_to binary64 (1 / 2 ^ n) = (if n \<le> 1074 then Fin (1 / 2 ^ n) else if 1076 \<le> n then Fin 0 else round_to binary64 (1 / 2 ^ n))"
proof -
  have "round_to binary64 (1 / 2 ^ n) = Fin 0" if "1076 \<le> n"
  proof (rule round_to_underflow)
    have "(2::real) ^ 1075 < 2 ^ n" using that by (intro power_strict_increasing) simp_all
    then have "(1::real) / 2 ^ n < 1 / 2 ^ 1075"
      by (simp add: field_simps del: power_strict_increasing_iff)
    also have "\<dots> = 2 powr real_of_int (2 - snd binary64 - int (fst binary64))"
      using powr_real_of_int [of 2 "- 1075"] by (simp add: field_simps)
    finally show "(1::real) / 2 ^ n < 2 powr real_of_int (2 - snd binary64 - int (fst binary64))" .
  qed simp_all
  then show ?thesis
    using float_form64_inverse_pow2 [of n] by (simp add: round_to_fixed)
qed

section \<open>Properties of iou on floats\<close>

lemma p64 [simp]: "0 < fst binary64" by simp

lemma fl_mul_Fin_cases: "fl_mul f a b = Fin c \<Longrightarrow> \<exists>x y. a = Fin x \<and> b = Fin y"
  by (cases a; cases b) (auto split: if_splits)

lemma round_to_between:
  assumes p: "0 < fst f" and x: "0 \<le> x" and xy: "x \<le> y" and y: "round_to f y = Fin b"
  shows "\<exists>a. round_to f x = Fin a \<and> 0 \<le> a \<and> a \<le> b"
  using round_to_mono [OF p xy] round_to_nonneg [OF p x] y
  by (cases "round_to f x") simp_all

lemma round_to_double:
  assumes p: "0 < fst f" and r: "float_form f m" and t: "round_to f (2 * m) = Fin t"
  shows "t = 2 * m"
proof -
  from r obtain n k where m: "m = real_of_int n * 2 powr real_of_int k"
    and n: "\<bar>n\<bar> \<le> 2 ^ fst f" and k: "3 - snd f - int (fst f) \<le> k"
    unfolding float_form_def by blast
  have "2 * m = real_of_int n * 2 powr real_of_int (k + 1)"
    using m by (simp add: powr_add)
  then have "grid_round f (2 * m) = 2 * m"
    using grid_round_fixed [OF p _ n, of "2 * m" "k + 1"] k by simp
  then show ?thesis
    using t by (auto simp: round_to_powr Let_def split: if_splits)
qed

lemma union_area_float_positive:
  assumes nd: "non_degenerate box1" "non_degenerate box2" and int: "intersecting box1 box2"
    and A1: "box_area_float box1 = Fin A1" "0 < A1"
    and A2: "box_area_float box2 = Fin A2" "0 < A2"
  shows "fl_positive (union_area_float box1 box2) \<and> (\<exists>i. inter_area_float box1 box2 = Fin i)"
proof -
  obtain a0 a1 a2 a3 b0 b1 b2 b3 where b: "box1 = (a0, a1, a2, a3)" "box2 = (b0, b1, b2, b3)"
    by (cases box1, cases box2) auto
  define xi1 yi1 xi2 yi2 where "xi1 = max a0 b0" and "yi1 = max a1 b1"
    and "xi2 = min a2 b2" and "yi2 = min a3 b3"
  have ord: "a0 < a2" "a1 < a3" "b0 < b2" "b1 < b3" "xi1 \<le> xi2" "yi1 \<le> yi2"
    using nd int b by (simp_all add: xi1_def xi2_def yi1_def yi2_def)
  obtain w1 h1 where wh1: "round_to binary64 (a2 - a0) = Fin w1" "round_to binary64 (a3 - a1) = Fin h1"
    and a1: "round_to binary64 (w1 * h1) = Fin A1"
    using A1(1) b fl_mul_Fin_cases [of binary64 "round_to binary64 (a2 - a0)" "round_to binary64 (a3 - a1)" A1]
    by (auto simp: fl_sub_Fin)
  obtain w2 h2 where wh2: "round_to binary64 (b2 - b0) = Fin w2" "round_to binary64 (b3 - b1) = Fin h2"
    and a2: "round_to binary64 (w2 * h2) = Fin A2"
    using A2(1) b fl_mul_Fin_cases [of binary64 "round_to binary64 (b2 - b0)" "round_to binary64 (b3 - b1)" A2]
    by (auto simp: fl_sub_Fin)
  have dx: "0 \<le> xi2 - xi1" "xi2 - xi1 \<le> a2 - a0" "xi2 - xi1 \<le> b2 - b0"
    and dy: "0 \<le> yi2 - yi1" "yi2 - yi1 \<le> a3 - a1" "yi2 - yi1 \<le> b3 - b1"
    using ord by (simp_all add: xi1_def xi2_def yi1_def yi2_def)
  obtain wi where wi: "round_to binary64 (xi2 - xi1) = Fin wi" "0 \<le> wi" "wi \<le> w1"
    using round_to_between [OF p64 dx(1) dx(2) wh1(1)] by blast
  obtain hi where hi: "round_to binary64 (yi2 - yi1) = Fin hi" "0 \<le> hi" "hi \<le> h1"
    using round_to_between [OF p64 dy(1) dy(2) wh1(2)] by blast
  have wi2: "wi \<le> w2" using round_to_between [OF p64 dx(1) dx(3) wh2(1)] wi(1) by auto
  have hi2: "hi \<le> h2" using round_to_between [OF p64 dy(1) dy(3) wh2(2)] hi(1) by auto
  have inter: "inter_area_float box1 box2 = round_to binary64 (hi * wi)"
    using b wi(1) hi(1) by (simp add: Let_def fl_sub_Fin xi1_def xi2_def yi1_def yi2_def)
  have "hi * wi \<le> w1 * h1" "hi * wi \<le> w2 * h2"
    using mult_mono [of hi h1 wi w1] mult_mono [of hi h2 wi w2] wi hi wi2 hi2
    by (simp_all add: mult.commute)
  moreover have "0 \<le> hi * wi" using wi hi by simp
  ultimately obtain i where i: "round_to binary64 (hi * wi) = Fin i" "0 \<le> i" "i \<le> A1" "i \<le> A2"
    using round_to_between [OF p64 _ _ a1, of "hi * wi"] round_to_between [OF p64 _ _ a2, of "hi * wi"]
    by auto
  define m where "m = min A1 A2"
  have m: "0 < m" "i \<le> m" "2 * m \<le> A1 + A2" "float_form binary64 m"
    using A1(2) A2(2) i round_to_float_form [OF a1] round_to_float_form [OF a2]
    by (auto simp: m_def min_def)
  have fixm: "round_to binary64 m = Fin m"
    using m(4) by (simp add: round_to_fixed)
  have un: "union_area_float box1 box2 = fl_sub binary64 (round_to binary64 (A1 + A2)) (Fin i)"
    using A1(1) A2(1) inter i(1) by (simp add: union_area_float_def)
  have nn: "fl_nonneg (round_to binary64 (A1 + A2))"
    using A1(2) A2(2) by (intro round_to_nonneg) simp_all
  have "fl_positive (union_area_float box1 box2)"
  proof (cases "round_to binary64 (A1 + A2)")
    case (Fin s)
    obtain t where t: "round_to binary64 (2 * m) = Fin t" "t \<le> s"
      using round_to_between [OF p64 _ m(3) Fin] m(1) by auto
    have "t = 2 * m" using round_to_double [OF p64 m(4) t(1)] .
    then have "m \<le> s - i" using t(2) m(2) by simp
    then have "fl_le (Fin m) (round_to binary64 (s - i))"
      using round_to_mono [OF p64, of m "s - i"] fixm by simp
    then show ?thesis
      using m(1) un Fin by (cases "round_to binary64 (s - i)") (simp_all add: fl_sub_Fin)
  next
    case PInf
    then show ?thesis using un by (simp add: fl_sub_def)
  next
    case NInf
    then show ?thesis using nn by simp
  next
    case NaN
    then show ?thesis using nn by simp
  qed
  then show ?thesis using inter i(1) by simp
qed

lemma iou_float_zero_area:
  assumes "box_area_float z = Fin 0"
  shows "iou_float z z = Inl ZeroDivisionError"
proof -
  obtain x1 y1 x2 y2 where z: "z = (x1, y1, x2, y2)" by (cases z) auto
  have inter: "inter_area_float z z = Fin 0"
    using assms z by (simp add: fl_mul_commute)
  have "union_area_float z z = Fin 0"
    using assms inter by (simp add: union_area_float_def fl_sub_Fin round_to_zero)
  then show ?thesis by (simp add: iou_float_def py_truediv_def)
qed

lemma iou_float_self_one:
  assumes A: "box_area_float b = Fin a" and nz: "a \<noteq> 0" and fin: "2 * \<bar>a\<bar> < 2 ^ 1024"
  shows "iou_float b b = Inr (Fin 1)"
proof -
  obtain x1 y1 x2 y2 where b: "b = (x1, y1, x2, y2)" by (cases b) auto
  have inter: "inter_area_float b b = Fin a"
    using A b by (simp add: fl_mul_commute)
  obtain u v where "round_to binary64 (u * v) = Fin a"
    using A b fl_mul_Fin_cases [of binary64 "fl_sub binary64 (Fin x2) (Fin x1)"
        "fl_sub binary64 (Fin y2) (Fin y1)" a]
    by auto
  then have ra: "float_form binary64 a" by (rule round_to_float_form)
  have "2 * \<bar>a\<bar> < 2 powr real_of_int (snd binary64)"
    using fin by simp
  then have "float_form binary64 (2 * a)"
    using ra by (intro float_form_double)
  then have "round_to binary64 (a + a) = Fin (2 * a)"
    using round_to_fixed [of binary64 "2 * a"] by simp
  moreover have "round_to binary64 (2 * a - a) = Fin a"
    using ra by (simp add: round_to_fixed)
  ultimately have un: "union_area_float b b = Fin a"
    using A inter by (simp add: union_area_float_def fl_sub_Fin)
  have "float_form binary64 1"
    by (rule float_formI [of _ 1 0]) simp_all
  then have "round_to binary64 1 = Fin 1" by (simp add: round_to_fixed)
  then show ?thesis
    using inter un nz by (simp add: iou_float_def py_truediv_def)
qed

text \<open>
  C6: \<open>iou(b, b)\<close> is \<open>1.0\<close> for every box whose area, as the source
  computes it in binary64, is finite and not zero and whose double is finite too; that
  is every non-degenerate box whose area neither underflows to zero nor overflows. On
  integer coordinates, where Python computes exactly, it is \<open>1\<close> for every
  non-degenerate box.
\<close>

theorem iou_float_self:
  "(box_area_float b = Fin a \<and> a \<noteq> 0 \<and> 2 * \<bar>a\<bar> < 2 ^ 1024 \<longrightarrow> iou_float b b = Inr (Fin 1))
   \<and> (integer_box b \<and> non_degenerate b \<longrightarrow> iou b b = Inr 1)"
  using iou_float_self_one [of b a] iou_exact_self [of b] by blast

theorem iou_float_self_witness:
  "(box_area_float (0, 0, 2, 3) = Fin 6 \<and> (6::real) \<noteq> 0 \<and> 2 * \<bar>6::real\<bar> < 2 ^ 1024)
   \<and> iou_float (0, 0, 2, 3) (0, 0, 2, 3) = Inr (Fin 1)
   \<and> (integer_box (0, 0, 2, 3) \<and> non_degenerate (0, 0, 2, 3))
   \<and> iou (0, 0, 2, 3) (0, 0, 2, 3) = Inr 1"
  using iou_float_self [of "(0, 0, 2, 3)" 6]
  by (simp add: fl_sub_Fin round_to64_small)

text \<open>
  C6 does not hold of every non-degenerate box of floats: the box with corners \<open>(0, 0)\<close> and
  \<open>(2^-600, 2^-600)\<close> is non-degenerate and its coordinates are binary64 numbers, yet
  its area \<open>2^-1200\<close> underflows to zero and \<open>iou\<close> of the box with itself raises
  \<open>ZeroDivisionError\<close>.
\<close>

theorem iou_self_counterexample:
  "non_degenerate (0, 0, 1 / 2 ^ 600, 1 / 2 ^ 600)
   \<and> representable binary64 0 \<and> representable binary64 (1 / 2 ^ 600)
   \<and> box_area_float (0, 0, 1 / 2 ^ 600, 1 / 2 ^ 600) = Fin 0
   \<and> iou_float (0, 0, 1 / 2 ^ 600, 1 / 2 ^ 600) (0, 0, 1 / 2 ^ 600, 1 / 2 ^ 600)
       = Inl ZeroDivisionError"
proof -
  have sq: "(1::real) / 2 ^ 600 * (1 / 2 ^ 600) = 1 / 2 ^ 1200"
    by (simp add: power_add [symmetric])
  have a: "box_area_float (0, 0, 1 / 2 ^ 600, 1 / 2 ^ 600) = Fin 0"
    using round_to64_inverse_pow2 [of 600] round_to64_inverse_pow2 [of 1200]
    by (simp add: fl_sub_Fin sq del: power_divide)
  show ?thesis
    using a iou_float_zero_area [OF a] round_to64_inverse_pow2 [of 600]
    by (simp add: representable_def round_to_zero)
qed

text \<open>
  C9: for two non-degenerate boxes with a non-empty intersection rectangle
  whose areas, as the source computes them in binary64, are finite and positive (neither
  has underflowed to zero or overflowed), the union area computed inside \<open>iou\<close> is
  positive and \<open>iou\<close> returns a quotient; on integer coordinates, where Python computes
  exactly, this holds for all such boxes. Nothing guards the division otherwise: a box
  whose computed area is zero, paired with itself, raises \<open>ZeroDivisionError\<close>.
\<close>

theorem iou_float_division_defined:
  "(non_degenerate box1 \<and> non_degenerate box2 \<and> intersecting box1 box2
      \<and> box_area_float box1 = Fin A1 \<and> 0 < A1 \<and> box_area_float box2 = Fin A2 \<and> 0 < A2 \<longrightarrow>
      fl_positive (union_area_float box1 box2) \<and> (\<exists>r. iou_float box1 box2 = Inr r))
   \<and> (integer_box box1 \<and> integer_box box2
      \<and> non_degenerate box1 \<and> non_degenerate box2 \<and> intersecting box1 box2 \<longrightarrow>
      0 < union_area box1 box2
      \<and> iou box1 box2 = Inr (inter_area box1 box2 / union_area box1 box2))
   \<and> (box_area_float z = Fin 0 \<longrightarrow> iou_float z z = Inl ZeroDivisionError)
   \<and> (box_area z' = 0 \<longrightarrow> iou z' z' = Inl ZeroDivisionError)"
proof (intro conjI impI)
  assume h: "non_degenerate box1 \<and> non_degenerate box2 \<and> intersecting box1 box2
      \<and> box_area_float box1 = Fin A1 \<and> 0 < A1 \<and> box_area_float box2 = Fin A2 \<and> 0 < A2"
  then show pos: "fl_positive (union_area_float box1 box2)"
    using union_area_float_positive [of box1 box2 A1 A2] by blast
  then have "union_area_float box1 box2 \<noteq> Fin 0"
    by auto
  then show "\<exists>r. iou_float box1 box2 = Inr r"
    by (simp add: iou_float_def py_truediv_def)
next
  assume "integer_box box1 \<and> integer_box box2
      \<and> non_degenerate box1 \<and> non_degenerate box2 \<and> intersecting box1 box2"
  then show "0 < union_area box1 box2"
    and "iou box1 box2 = Inr (inter_area box1 box2 / union_area box1 box2)"
    using iou_exact_division [of box1 box2] by blast+
next
  assume "box_area_float z = Fin 0"
  then show "iou_float z z = Inl ZeroDivisionError"
    by (rule iou_float_zero_area)
next
  assume "box_area z' = 0"
  then show "iou z' z' = Inl ZeroDivisionError"
    by (rule iou_exact_zero_area)
qed

theorem iou_float_division_defined_witness:
  "(non_degenerate (2, 1, 4, 3) \<and> non_degenerate (1, 2, 3, 4)
      \<and> intersecting (2, 1, 4, 3) (1, 2, 3, 4)
      \<and> box_area_float (2, 1, 4, 3) = Fin 4 \<and> (0::real) < 4
      \<and> box_area_float (1, 2, 3, 4) = Fin 4)
   \<and> union_area_float (2, 1, 4, 3) (1, 2, 3, 4) = Fin 7
   \<and> fl_positive (union_area_float (2, 1, 4, 3) (1, 2, 3, 4))
   \<and> (\<exists>r. iou_float (2, 1, 4, 3) (1, 2, 3, 4) = Inr r)
   \<and> (integer_box (2, 1, 4, 3) \<and> integer_box (1, 2, 3, 4))
   \<and> 0 < union_area (2, 1, 4, 3) (1, 2, 3, 4)
   \<and> iou (2, 1, 4, 3) (1, 2, 3, 4)
       = Inr (inter_area (2, 1, 4, 3) (1, 2, 3, 4) / union_area (2, 1, 4, 3) (1, 2, 3, 4))
   \<and> box_area_float (5, 5, 5, 5) = Fin 0
   \<and> iou_float (5, 5, 5, 5) (5, 5, 5, 5) = Inl ZeroDivisionError
   \<and> box_area (5, 5, 5, 5) = 0 \<and> iou (5, 5, 5, 5) (5, 5, 5, 5) = Inl ZeroDivisionError"
proof -
  have a: "box_area_float (2, 1, 4, 3) = Fin 4" "box_area_float (1, 2, 3, 4) = Fin 4"
    "box_area_float (5, 5, 5, 5) = Fin 0"
    by (simp_all add: fl_sub_Fin round_to64_small round_to_zero)
  have u: "union_area_float (2, 1, 4, 3) (1, 2, 3, 4) = Fin 7"
    by (simp add: union_area_float_def Let_def fl_sub_Fin round_to64_small)
  show ?thesis
    using iou_float_division_defined [of "(2, 1, 4, 3)" "(1, 2, 3, 4)" 4 4 "(5, 5, 5, 5)"
        "(5, 5, 5, 5)"] a u
    by simp
qed

text \<open>
  C9 needs the computed areas to be positive: the two boxes below are non-degenerate, their
  coordinates are binary64 numbers and their intersection rectangle is non-empty, yet
  all three areas underflow to zero, the union area is zero and the division raises
  \<open>ZeroDivisionError\<close>.
\<close>

theorem iou_division_counterexample:
  "non_degenerate (0, 0, 1 / 2 ^ 600, 1 / 2 ^ 600) \<and> non_degenerate (0, 0, 1 / 2 ^ 599, 1 / 2 ^ 599)
   \<and> intersecting (0, 0, 1 / 2 ^ 600, 1 / 2 ^ 600) (0, 0, 1 / 2 ^ 599, 1 / 2 ^ 599)
   \<and> representable binary64 (1 / 2 ^ 600) \<and> representable binary64 (1 / 2 ^ 599)
   \<and> union_area_float (0, 0, 1 / 2 ^ 600, 1 / 2 ^ 600) (0, 0, 1 / 2 ^ 599, 1 / 2 ^ 599) = Fin 0
   \<and> iou_float (0, 0, 1 / 2 ^ 600, 1 / 2 ^ 600) (0, 0, 1 / 2 ^ 599, 1 / 2 ^ 599)
       = Inl ZeroDivisionError"
proof -
  have sq: "(1::real) / 2 ^ 600 * (1 / 2 ^ 600) = 1 / 2 ^ 1200"
    "(1::real) / 2 ^ 599 * (1 / 2 ^ 599) = 1 / 2 ^ 1198"
    by (simp_all add: power_add [symmetric])
  have mn: "min ((1::real) / 2 ^ 600) (1 / 2 ^ 599) = 1 / 2 ^ 600"
    by (simp add: min_def field_simps)
  have r: "round_to binary64 (1 / 2 ^ 600) = Fin (1 / 2 ^ 600)"
    "round_to binary64 (1 / 2 ^ 599) = Fin (1 / 2 ^ 599)"
    "round_to binary64 (1 / 2 ^ 1200) = Fin 0" "round_to binary64 (1 / 2 ^ 1198) = Fin 0"
    using round_to64_inverse_pow2 [of 600] round_to64_inverse_pow2 [of 599]
      round_to64_inverse_pow2 [of 1200] round_to64_inverse_pow2 [of 1198]
    by simp_all
  have a: "box_area_float (0, 0, 1 / 2 ^ 600, 1 / 2 ^ 600) = Fin 0"
    "box_area_float (0, 0, 1 / 2 ^ 599, 1 / 2 ^ 599) = Fin 0"
    using r by (simp_all add: fl_sub_Fin sq del: power_divide)
  have i: "inter_area_float (0, 0, 1 / 2 ^ 600, 1 / 2 ^ 600) (0, 0, 1 / 2 ^ 599, 1 / 2 ^ 599) = Fin 0"
    using r by (simp add: Let_def mn fl_sub_Fin sq del: power_divide)
  have u: "union_area_float (0, 0, 1 / 2 ^ 600, 1 / 2 ^ 600) (0, 0, 1 / 2 ^ 599, 1 / 2 ^ 599) = Fin 0"
    unfolding union_area_float_def a i by (simp add: fl_sub_Fin round_to_zero)
  have "iou_float (0, 0, 1 / 2 ^ 600, 1 / 2 ^ 600) (0, 0, 1 / 2 ^ 599, 1 / 2 ^ 599)
       = Inl ZeroDivisionError"
    unfolding iou_float_def u by (simp add: py_truediv_def)
  then show ?thesis
    using u mn r(1,2) by (simp add: representable_def)
qed

section \<open>Properties of the score filter\<close>

lemma boolean_mask_nth:
  "length keep = length tensor \<Longrightarrow>
   boolean_mask tensor keep = map (\<lambda>i. tensor ! i) (filter (\<lambda>i. keep ! i) [0..<length tensor])"
proof (induction tensor arbitrary: keep)
  case Nil
  then show ?case by (simp add: boolean_mask_def)
next
  case (Cons x xs)
  then obtain k ks where k: "keep = k # ks" "length ks = length xs"
    by (cases keep) auto
  have "boolean_mask xs ks = map (\<lambda>i. xs ! i) (filter (\<lambda>i. ks ! i) [0..<length xs])"
    using Cons.IH k by simp
  then show ?case
    using k by (simp add: boolean_mask_def upt_conv_Cons [of 0] map_Suc_upt [symmetric] filter_map comp_def del: upt_Suc)
qed



lemma broadcast_mul_nth:
  "length confidence = length probs \<Longrightarrow> i < length probs \<Longrightarrow>
   broadcast_mul confidence probs ! i = map (\<lambda>p. confidence ! i * p) (probs ! i)"
  by (simp add: broadcast_mul_def)

lemma length_broadcast_mul:
  "length confidence = length probs \<Longrightarrow> length (broadcast_mul confidence probs) = length probs"
  by (simp add: broadcast_mul_def)

lemma K_max_broadcast_nth:
  assumes "length confidence = length probs" and "i < length probs"
  shows "K_max (broadcast_mul confidence probs) ! i = box_max_score confidence probs i"
  using assms by (simp add: K_max_def length_broadcast_mul broadcast_mul_nth box_max_score_def)

lemma K_argmax_broadcast_nth:
  assumes "length confidence = length probs" and "i < length probs"
  shows "K_argmax (broadcast_mul confidence probs) ! i = box_best_class confidence probs i"
  using assms by (simp add: K_argmax_def length_broadcast_mul broadcast_mul_nth box_best_class_def)

lemma kept_positions:
  assumes "length confidence = length probs"
  shows "filter (\<lambda>i. map (\<lambda>s. s \<ge> threshold) (K_max (broadcast_mul confidence probs)) ! i)
           [0..<length probs]
         = retained confidence probs threshold"
  unfolding retained_def
proof (rule filter_cong [OF refl])
  fix i assume "i \<in> set [0..<length probs]"
  then have i: "i < length probs" by simp
  then have "i < length (K_max (broadcast_mul confidence probs))"
    using assms by (simp add: K_max_def length_broadcast_mul)
  then show "map (\<lambda>s. s \<ge> threshold) (K_max (broadcast_mul confidence probs)) ! i
             = (threshold \<le> box_max_score confidence probs i)"
    using K_max_broadcast_nth [OF assms i] by simp
qed

lemma retained_bound: "i \<in> set (retained confidence probs threshold) \<Longrightarrow> i < length probs"
  by (simp add: retained_def)

lemma yolo_filter_boxes_result:
  assumes "compatible_shapes confidence boxes probs"
  shows "yolo_filter_boxes confidence boxes probs threshold =
         Inr (map (box_max_score confidence probs) (retained confidence probs threshold),
              map (\<lambda>i. boxes ! i) (retained confidence probs threshold),
              map (box_best_class confidence probs) (retained confidence probs threshold))"
proof -
  let ?bs = "broadcast_mul confidence probs"
  let ?keep = "map (\<lambda>s. s \<ge> threshold) (K_max ?bs)"
  let ?kept = "retained confidence probs threshold"
  from assms have len: "length confidence = length probs" "length boxes = length probs"
    by (simp_all add: compatible_shapes_def)
  have lk: "length ?keep = length probs" "length (K_max ?bs) = length probs"
    "length (K_argmax ?bs) = length probs"
    using len by (simp_all add: K_max_def K_argmax_def length_broadcast_mul)
  have s: "boolean_mask (K_max ?bs) ?keep = map (box_max_score confidence probs) ?kept"
  proof -
    have "boolean_mask (K_max ?bs) ?keep = map (\<lambda>i. K_max ?bs ! i) ?kept"
      using boolean_mask_nth [of ?keep "K_max ?bs"] lk kept_positions [OF len(1), of threshold]
      by simp
    also have "\<dots> = map (box_max_score confidence probs) ?kept"
      by (rule map_cong [OF refl]) (simp add: K_max_broadcast_nth [OF len(1)] retained_bound)
    finally show ?thesis .
  qed
  have b: "boolean_mask boxes ?keep = map (\<lambda>i. boxes ! i) ?kept"
    using boolean_mask_nth [of ?keep boxes] lk len kept_positions [OF len(1), of threshold]
    by simp
  have c: "boolean_mask (K_argmax ?bs) ?keep = map (box_best_class confidence probs) ?kept"
  proof -
    have "boolean_mask (K_argmax ?bs) ?keep = map (\<lambda>i. K_argmax ?bs ! i) ?kept"
      using boolean_mask_nth [of ?keep "K_argmax ?bs"] lk kept_positions [OF len(1), of threshold]
      by simp
    also have "\<dots> = map (box_best_class confidence probs) ?kept"
      by (rule map_cong [OF refl]) (simp add: K_argmax_broadcast_nth [OF len(1)] retained_bound)
    finally show ?thesis .
  qed
  show ?thesis
    using assms s b c by (simp add: yolo_filter_boxes_def Let_def)
qed





text \<open>
  C7: the filter preserves order. Its three outputs list the entries of
  \<open>box_class_scores\<close>, \<open>boxes\<close> and \<open>box_classes\<close> at one and the same strictly
  increasing sequence of positions of the enumeration of the boxes.
\<close>

theorem yolo_filter_boxes_order_preserving:
  assumes "compatible_shapes box_confidence boxes box_class_probs"
  shows "\<exists>positions.
      sorted_wrt (<) positions \<and> (\<forall>i \<in> set positions. i < length boxes)
    \<and> yolo_filter_boxes box_confidence boxes box_class_probs threshold =
        Inr (map (\<lambda>i. K_max (broadcast_mul box_confidence box_class_probs) ! i) positions,
             map (\<lambda>i. boxes ! i) positions,
             map (\<lambda>i. K_argmax (broadcast_mul box_confidence box_class_probs) ! i) positions)"
proof -
  let ?kept = "retained box_confidence box_class_probs threshold"
  from assms have len: "length box_confidence = length box_class_probs"
    "length boxes = length box_class_probs"
    by (simp_all add: compatible_shapes_def)
  have "sorted_wrt (<) ?kept"
    unfolding retained_def by (rule sorted_wrt_filter) simp
  moreover have b: "\<forall>i \<in> set ?kept. i < length boxes"
    using len by (simp add: retained_def)
  moreover have "map (box_max_score box_confidence box_class_probs) ?kept
      = map (\<lambda>i. K_max (broadcast_mul box_confidence box_class_probs) ! i) ?kept"
    by (rule map_cong [OF refl]) (simp add: K_max_broadcast_nth [OF len(1)] retained_bound)
  moreover have "map (box_best_class box_confidence box_class_probs) ?kept
      = map (\<lambda>i. K_argmax (broadcast_mul box_confidence box_class_probs) ! i) ?kept"
    by (rule map_cong [OF refl]) (simp add: K_argmax_broadcast_nth [OF len(1)] retained_bound)
  ultimately show ?thesis
    using yolo_filter_boxes_result [OF assms, of threshold] by metis
qed


theorem yolo_filter_boxes_order_preserving_witness:
  "compatible_shapes [1 / 2, 1, 1, 1] [(0, 0, 1, 1), (1, 1, 2, 2), (2, 2, 3, 3), (3, 3, 4, 4)]
     [[1 / 2, 1], [3 / 5, 1 / 5], [1 / 10, 3 / 10], [9 / 10, 1]]
   \<and> (\<exists>positions. sorted_wrt (<) positions \<and> (\<forall>i \<in> set positions.
            i < length [(0, 0, 1, 1), (1, 1, 2, 2), (2, 2, 3, 3), (3, 3, 4, 4) :: box])
        \<and> yolo_filter_boxes [1 / 2, 1, 1, 1] [(0, 0, 1, 1), (1, 1, 2, 2), (2, 2, 3, 3), (3, 3, 4, 4)]
            [[1 / 2, 1], [3 / 5, 1 / 5], [1 / 10, 3 / 10], [9 / 10, 1]] (3 / 5)
          = Inr (map (\<lambda>i. [1 / 2, 3 / 5, 3 / 10, 1] ! i) positions,
                 map (\<lambda>i. [(0, 0, 1, 1), (1, 1, 2, 2), (2, 2, 3, 3), (3, 3, 4, 4)] ! i) positions,
                 map (\<lambda>i. [1, 0, 1, 1] ! i) positions))"
  using yolo_filter_boxes_order_preserving [of "[1 / 2, 1, 1, 1]"
      "[(0, 0, 1, 1), (1, 1, 2, 2), (2, 2, 3, 3), (3, 3, 4, 4)]"
      "[[1 / 2, 1], [3 / 5, 1 / 5], [1 / 10, 3 / 10], [9 / 10, 1]]" "3 / 5"]
  by (simp add: compatible_shapes_def broadcast_mul_def K_max_def K_argmax_def argmax_row_def)

section \<open>Properties of non-max suppression and evaluation\<close>

lemma length_nms_select:
  "length (nms_select overlap boxes thr m candidates selected) \<le> max m (length selected)"
proof (induction candidates arbitrary: selected)
  case Nil
  then show ?case by simp
next
  case (Cons i candidates)
  show ?case
  proof (cases "m \<le> length selected")
    case True
    then show ?thesis by simp
  next
    case False
    then have "max m (length (selected @ [i])) = max m (length selected)"
      by simp
    then show ?thesis
      using False Cons.IH [of selected] Cons.IH [of "selected @ [i]"] by simp
  qed
qed

lemma set_nms_select:
  "set (nms_select overlap boxes thr m candidates selected) \<subseteq> set candidates \<union> set selected"
proof (induction candidates arbitrary: selected)
  case Nil
  then show ?case by simp
next
  case (Cons i candidates)
  show ?case
    using Cons.IH [of selected] Cons.IH [of "selected @ [i]"] by auto
qed

lemma non_max_suppression_indices:
  assumes "non_max_suppression overlap boxes scores m thr = Inr indices"
  shows "length indices \<le> m \<and> (\<forall>i \<in> set indices. i < length scores)"
proof -
  let ?cands = "sort_key (\<lambda>i. - (scores ! i)) [0..<length scores]"
  from assms have eq: "indices = nms_select overlap boxes thr m ?cands []"
    by (simp add: non_max_suppression_def split: if_splits)
  have "length indices \<le> m"
    using length_nms_select [of overlap boxes thr m ?cands "[]"] eq by simp
  moreover have "set indices \<subseteq> {0..<length scores}"
    using set_nms_select [of overlap boxes thr m ?cands "[]"] eq by simp
  ultimately show ?thesis by auto
qed

lemma K_gather_length: "K_gather reference indices = Inr rows \<Longrightarrow> length rows = length indices"
  by (auto simp: K_gather_def split: if_splits)

lemma K_gather_defined:
  "\<forall>i \<in> set indices. i < length reference \<Longrightarrow> \<exists>rows. K_gather reference indices = Inr rows"
  by (simp add: K_gather_def list_all_iff)

text \<open>
  C4: each of the three sequences returned by \<open>yolo_non_max_suppression\<close> has at most
  \<open>max_boxes\<close> entries, and the function does return them when scores, boxes and
  classes have one length.
\<close>

theorem yolo_non_max_suppression_length:
  "(\<forall>scores' boxes' classes' sess'.
       yolo_non_max_suppression overlap sess scores boxes classes max_boxes iou_threshold
         = (Inr (scores', boxes', classes'), sess') \<longrightarrow>
       length scores' \<le> max_boxes \<and> length boxes' \<le> max_boxes \<and> length classes' \<le> max_boxes)
   \<and> (length boxes = length scores \<and> length classes = length scores \<longrightarrow>
       (\<exists>r. fst (yolo_non_max_suppression overlap sess scores boxes classes max_boxes iou_threshold)
              = Inr r))"
proof (intro conjI allI impI)
  fix scores' boxes' and classes' :: "'a list" and sess'
  assume r: "yolo_non_max_suppression overlap sess scores boxes classes max_boxes iou_threshold
         = (Inr (scores', boxes', classes'), sess')"
  then obtain indices where i: "non_max_suppression overlap boxes scores max_boxes iou_threshold = Inr indices"
    and g: "K_gather scores indices = Inr scores'" "K_gather boxes indices = Inr boxes'"
      "K_gather classes indices = Inr classes'"
    by (auto simp: yolo_non_max_suppression_def Let_def split: sum.splits)
  have "length indices \<le> max_boxes"
    using non_max_suppression_indices [OF i] by simp
  then show "length scores' \<le> max_boxes" "length boxes' \<le> max_boxes" "length classes' \<le> max_boxes"
    using g by (simp_all add: K_gather_length)
next
  assume len: "length boxes = length scores \<and> length classes = length scores"
  then obtain indices where i: "non_max_suppression overlap boxes scores max_boxes iou_threshold = Inr indices"
    by (simp add: non_max_suppression_def)
  then have b: "\<forall>i \<in> set indices. i < length scores"
    using non_max_suppression_indices by blast
  obtain s b' c where "K_gather scores indices = Inr s" "K_gather boxes indices = Inr b'"
    "K_gather classes indices = Inr c"
    using K_gather_defined [of indices scores] K_gather_defined [of indices boxes]
      K_gather_defined [of indices classes] b len by auto
  then show "\<exists>r. fst (yolo_non_max_suppression overlap sess scores boxes classes max_boxes iou_threshold)
              = Inr r"
    using i by (simp add: yolo_non_max_suppression_def Let_def)
qed

theorem yolo_non_max_suppression_length_witness:
  "yolo_non_max_suppression (\<lambda>b1 b2. 0) [] [7 / 10, 9 / 10, 4 / 5]
       [(0, 0, 1, 1), (1, 1, 2, 2), (2, 2, 3, 3)] [4 :: nat, 5, 6] 2 (1 / 2)
     = (Inr ([9 / 10, 4 / 5], [(1, 1, 2, 2), (2, 2, 3, 3)], [5, 6]), [2])
   \<and> length [9 / 10, 4 / 5 :: real] \<le> 2 \<and> length [(1, 1, 2, 2), (2, 2, 3, 3) :: box] \<le> 2
   \<and> length [5, 6 :: nat] \<le> 2"
  using yolo_non_max_suppression_length [of "\<lambda>b1 b2. 0" "[]" "[7 / 10, 9 / 10, 4 / 5]"
      "[(0, 0, 1, 1), (1, 1, 2, 2), (2, 2, 3, 3)]" "[4 :: nat, 5, 6]" 2 "1 / 2"]
  by (simp add: yolo_non_max_suppression_def non_max_suppression_def K_gather_def Let_def
      upt_conv_Cons)

lemma fst_yolo_non_max_suppression:
  "fst (yolo_non_max_suppression overlap sess scores boxes classes max_boxes iou_threshold)
   = fst (yolo_non_max_suppression overlap sess' scores boxes classes max_boxes iou_threshold)"
  by (simp add: yolo_non_max_suppression_def Let_def)

text \<open>
  C2: whatever the session holds, the result of \<open>yolo_eval\<close> is that of the
  chain \<open>yolo_boxes_to_corners\<close>, \<open>yolo_filter_boxes\<close> with \<open>score_threshold\<close>,
  \<open>scale_boxes\<close> with \<open>image_shape\<close>, \<open>yolo_non_max_suppression\<close> with
  \<open>max_boxes\<close> and \<open>iou_threshold\<close>, and two calls in different sessions return the
  same. The function is not free of state: a call whose score filter succeeds leaves one
  more initialised variable, \<open>max_boxes_tensor\<close>, in the session; no call reads it.
\<close>

theorem yolo_eval_composition_and_session:
  "fst (yolo_eval overlap yolo_boxes_to_corners scale_boxes sess yolo_outputs image_shape
          max_boxes score_threshold iou_threshold)
     = yolo_eval_spec overlap yolo_boxes_to_corners scale_boxes yolo_outputs image_shape
          max_boxes score_threshold iou_threshold
   \<and> fst (yolo_eval overlap yolo_boxes_to_corners scale_boxes sess yolo_outputs image_shape
          max_boxes score_threshold iou_threshold)
     = fst (yolo_eval overlap yolo_boxes_to_corners scale_boxes sess' yolo_outputs image_shape
          max_boxes score_threshold iou_threshold)
   \<and> snd (yolo_eval overlap yolo_boxes_to_corners scale_boxes sess yolo_outputs image_shape
          max_boxes score_threshold iou_threshold)
     = (case yolo_outputs of (box_confidence, box_xy, box_wh, box_class_probs) \<Rightarrow>
          (case yolo_filter_boxes box_confidence (yolo_boxes_to_corners box_xy box_wh)
                  box_class_probs score_threshold of
             Inl e \<Rightarrow> sess
           | Inr kept \<Rightarrow> int max_boxes # sess))"
proof -
  have spec: "fst (yolo_eval overlap yolo_boxes_to_corners scale_boxes s yolo_outputs image_shape
          max_boxes score_threshold iou_threshold)
     = yolo_eval_spec overlap yolo_boxes_to_corners scale_boxes yolo_outputs image_shape
          max_boxes score_threshold iou_threshold" for s
  proof (cases yolo_outputs)
    case (fields box_confidence box_xy box_wh box_class_probs)
    show ?thesis
    proof (cases "yolo_filter_boxes box_confidence (yolo_boxes_to_corners box_xy box_wh)
                    box_class_probs score_threshold")
      case (Inl e)
      then show ?thesis
        using fields by (simp add: yolo_eval_def yolo_eval_spec_def on_success_def)
    next
      case (Inr kept)
      obtain scores boxes classes where k: "kept = (scores, boxes, classes)"
        by (cases kept)
      show ?thesis
        using fields Inr k
          fst_yolo_non_max_suppression [of overlap s scores "scale_boxes boxes image_shape" classes
            max_boxes iou_threshold "[]"]
        by (simp add: yolo_eval_def yolo_eval_spec_def on_success_def Let_def)
    qed
  qed
  have sess: "snd (yolo_eval overlap yolo_boxes_to_corners scale_boxes sess yolo_outputs image_shape
          max_boxes score_threshold iou_threshold)
     = (case yolo_outputs of (box_confidence, box_xy, box_wh, box_class_probs) \<Rightarrow>
          (case yolo_filter_boxes box_confidence (yolo_boxes_to_corners box_xy box_wh)
                  box_class_probs score_threshold of
             Inl e \<Rightarrow> sess
           | Inr kept \<Rightarrow> int max_boxes # sess))"
    by (auto simp: yolo_eval_def yolo_non_max_suppression_def Let_def split: prod.splits sum.splits)
  show ?thesis
    using spec [of sess] spec [of sess'] sess by simp
qed

text \<open>
  C2 does not extend to the session: \<open>yolo_eval\<close> retains state between calls.
  Started in an empty session, a call leaves the variable \<open>max_boxes_tensor\<close> behind,
  and a second call adds another.
\<close>

theorem yolo_eval_session_counterexample:
  "snd (yolo_eval (\<lambda>b1 b2. 0) (\<lambda>xy wh. [(0, 0, 1, 1)]) (\<lambda>boxes shape. boxes) []
         ([1], (), (), [[1]]) () 10 (3 / 5) (1 / 2)) = [10]
   \<and> snd (yolo_eval (\<lambda>b1 b2. 0) (\<lambda>xy wh. [(0, 0, 1, 1)]) (\<lambda>boxes shape. boxes) [10]
         ([1], (), (), [[1]]) () 10 (3 / 5) (1 / 2)) = [10, 10]
   \<and> fst (yolo_eval (\<lambda>b1 b2. 0) (\<lambda>xy wh. [(0, 0, 1, 1)]) (\<lambda>boxes shape. boxes) []
         ([1], (), (), [[1]]) () 10 (3 / 5) (1 / 2)) = Inr ([1], [(0, 0, 1, 1)], [0])"
  by (simp add: yolo_eval_def yolo_filter_boxes_def compatible_shapes_def broadcast_mul_def
      K_max_def K_argmax_def argmax_row_def boolean_mask_def yolo_non_max_suppression_def
      non_max_suppression_def K_gather_def Let_def)

section \<open>Properties of the triplet loss\<close>

lemma p32 [simp]: "0 < fst binary32" by simp

lemma fl_add_nonneg:
  assumes "0 < fst f" and "fl_nonneg a" and "fl_nonneg b"
  shows "fl_nonneg (fl_add f a b)"
  using assms by (cases a; cases b) (simp_all add: round_to_nonneg)

lemma fl_add_nan_or_nonneg:
  assumes "0 < fst f" and "a = NaN \<or> fl_nonneg a" and "b = NaN \<or> fl_nonneg b"
  shows "fl_add f a b = NaN \<or> fl_nonneg (fl_add f a b)"
  using assms fl_add_nonneg [of f a b] by (cases a; cases b) auto

lemma foldl_fl_add_nonneg:
  assumes "0 < fst f" and "fl_nonneg acc" and "\<forall>x \<in> set xs. fl_nonneg x"
  shows "fl_nonneg (foldl (fl_add f) acc xs)"
  using assms(2,3)
proof (induction xs arbitrary: acc)
  case Nil
  then show ?case by simp
next
  case (Cons x xs)
  then show ?case using fl_add_nonneg [OF assms(1), of acc x] by simp
qed

lemma foldl_fl_add_nan_or_nonneg:
  assumes "0 < fst f" and "acc = NaN \<or> fl_nonneg acc" and "\<forall>x \<in> set xs. x = NaN \<or> fl_nonneg x"
  shows "foldl (fl_add f) acc xs = NaN \<or> fl_nonneg (foldl (fl_add f) acc xs)"
  using assms(2,3)
proof (induction xs arbitrary: acc)
  case Nil
  then show ?case by simp
next
  case (Cons x xs)
  then show ?case using fl_add_nan_or_nonneg [OF assms(1), of acc x] by simp
qed

lemma sum_in_order_sums: "sums_like_additions sum_in_order"
  unfolding sums_like_additions_def sum_in_order_def
  using foldl_fl_add_nonneg [of binary32 "Fin 0"] foldl_fl_add_nan_or_nonneg [of binary32 "Fin 0"]
  by simp

lemma reduce_sum_nonneg:
  "sums_like_additions reduce_sum \<Longrightarrow> \<forall>x \<in> set xs. fl_nonneg x \<Longrightarrow> fl_nonneg (reduce_sum xs)"
  by (simp add: sums_like_additions_def)

lemma reduce_sum_nan_or_nonneg:
  "sums_like_additions reduce_sum \<Longrightarrow> \<forall>x \<in> set xs. x = NaN \<or> fl_nonneg x \<Longrightarrow>
   reduce_sum xs = NaN \<or> fl_nonneg (reduce_sum xs)"
  by (simp add: sums_like_additions_def)

lemma tf_maximum_zero: "tf_maximum v (Fin 0) = NaN \<or> fl_nonneg (tf_maximum v (Fin 0))"
  by (cases v) (simp_all add: tf_maximum_def)

lemma tf_maximum_zero_nonneg: "v \<noteq> NaN \<Longrightarrow> fl_nonneg (tf_maximum v (Fin 0))"
  by (cases v) (simp_all add: tf_maximum_def)

lemma fl_square_nonneg: "0 < fst f \<Longrightarrow> d \<noteq> NaN \<Longrightarrow> fl_nonneg (fl_mul f d d)"
  by (cases d) (simp_all add: round_to_nonneg)

lemma squared_distance_nonneg:
  "sums_like_additions reduce_sum \<Longrightarrow> fl_nonneg (squared_distance reduce_sum u v)"
  unfolding squared_distance_def
  by (rule reduce_sum_nonneg) (auto simp: fl_sub_Fin round_to_not_NaN intro!: fl_square_nonneg)

lemma tf_subtract_defined:
  assumes "map length b = map length a"
  shows "tf_subtract a b = Inr (map2 (map2 (\<lambda>u v. fl_sub binary32 (Fin u) (Fin v))) a b)"
    and "length b = length a"
  using assms map_eq_imp_length_eq [of length b length a] by (simp_all add: tf_subtract_def)

lemma dist_nth:
  assumes "length b = length a" and "i < length a"
  shows "reduce_sum_last reduce_sum
           (tf_square (map2 (map2 (\<lambda>u v. fl_sub binary32 (Fin u) (Fin v))) a b)) ! i
         = squared_distance reduce_sum (a ! i) (b ! i)"
  using assms by (simp add: reduce_sum_last_def tf_square_def squared_distance_def)

lemma basic_loss_not_NaN:
  assumes "fl_nonneg P" and "fl_nonneg N" and "\<not> (P = PInf \<and> N = PInf)" and "is_finite al"
  shows "fl_add binary32 (fl_sub binary32 P N) al \<noteq> NaN"
proof -
  obtain x where al: "al = Fin x" using assms(4) by (cases al) simp_all
  show ?thesis
  proof (cases P)
    case (Fin p)
    show ?thesis
    proof (cases N)
      case (Fin n)
      then show ?thesis
        using \<open>P = Fin p\<close> al round_to_not_NaN [of binary32 "p - n"]
        by (cases "round_to binary32 (p - n)") (simp_all add: fl_sub_Fin round_to_not_NaN)
    qed (use assms(2) \<open>P = Fin p\<close> al in \<open>simp_all add: fl_sub_def\<close>)
  next
    case PInf
    then show ?thesis using assms(2,3) al by (cases N) (simp_all add: fl_sub_def)
  qed (use assms(1) in simp_all)
qed

lemma triplet_loss_returns_nan_or_nonneg:
  assumes "sums_like_additions reduce_sum"
    and "triplet_loss reduce_sum y_true y_pred alpha = Inr loss"
  shows "loss = NaN \<or> fl_nonneg loss"
proof -
  from assms(2) obtain basic where "loss = reduce_sum (map (\<lambda>v. tf_maximum v (Fin 0)) basic)"
    by (auto simp: triplet_loss_def Let_def simp del: map_map split: if_splits sum.splits)
  then show ?thesis
    using reduce_sum_nan_or_nonneg [OF assms(1), of "map (\<lambda>v. tf_maximum v (Fin 0)) basic"]
      tf_maximum_zero
    by auto
qed

lemma triplet_loss_defined_nonneg:
  assumes rs: "sums_like_additions reduce_sum"
    and y: "y_pred = [anchor, positive, negative]" and s: "same_shapes anchor positive negative"
    and al: "is_finite (round_to binary32 alpha)"
    and nov: "no_double_overflow reduce_sum anchor positive negative"
  shows "\<exists>loss. triplet_loss reduce_sum y_true y_pred alpha = Inr loss \<and> fl_nonneg loss"
proof -
  let ?sub = "\<lambda>a b. map2 (map2 (\<lambda>u v. fl_sub binary32 (Fin u) (Fin v))) a b"
  let ?pos = "reduce_sum_last reduce_sum (tf_square (?sub anchor positive))"
  let ?neg = "reduce_sum_last reduce_sum (tf_square (?sub anchor negative))"
  let ?basic = "map (\<lambda>v. fl_add binary32 v (round_to binary32 alpha))
                  (map2 (\<lambda>u v. fl_sub binary32 u v) ?pos ?neg)"
  have sp: "tf_subtract anchor positive = Inr (?sub anchor positive)" "length positive = length anchor"
    and sn: "tf_subtract anchor negative = Inr (?sub anchor negative)" "length negative = length anchor"
    using s tf_subtract_defined [of positive anchor] tf_subtract_defined [of negative anchor]
    by (simp_all add: same_shapes_def)
  have ov: "\<forall>i < length anchor. \<not> (squared_distance reduce_sum (anchor ! i) (positive ! i) = PInf
                 \<and> squared_distance reduce_sum (anchor ! i) (negative ! i) = PInf)"
    using nov sp(2) sn(2) by (simp add: no_double_overflow_def list_all_length)
  have len: "length ?pos = length anchor" "length ?neg = length anchor"
    using sp(2) sn(2) by (simp_all add: reduce_sum_last_def tf_square_def)
  then have sv: "tf_subtract_vec ?pos ?neg = Inr (map2 (\<lambda>u v. fl_sub binary32 u v) ?pos ?neg)"
    by (simp add: tf_subtract_vec_def)
  have eq: "triplet_loss reduce_sum y_true y_pred alpha
            = Inr (reduce_sum (map (\<lambda>v. tf_maximum v (Fin 0)) ?basic))"
    using y sp(1) sn(1) sv by (simp add: triplet_loss_def Let_def del: map_map)
  have "fl_nonneg x" if "x \<in> set (map (\<lambda>v. tf_maximum v (Fin 0)) ?basic)" for x
  proof -
    from that obtain i where i: "i < length anchor"
      and x: "x = tf_maximum (fl_add binary32 (fl_sub binary32 (?pos ! i) (?neg ! i))
                   (round_to binary32 alpha)) (Fin 0)"
      using len by (auto simp: in_set_conv_nth simp del: map_map)
    have "?pos ! i = squared_distance reduce_sum (anchor ! i) (positive ! i)"
      "?neg ! i = squared_distance reduce_sum (anchor ! i) (negative ! i)"
      using dist_nth [OF sp(2) i] dist_nth [OF sn(2) i] by simp_all
    then have "fl_add binary32 (fl_sub binary32 (?pos ! i) (?neg ! i)) (round_to binary32 alpha)
               \<noteq> NaN"
      using basic_loss_not_NaN [OF squared_distance_nonneg [OF rs] squared_distance_nonneg [OF rs] _ al]
        ov i
      by simp
    then show ?thesis unfolding x by (rule tf_maximum_zero_nonneg)
  qed
  then have "fl_nonneg (reduce_sum (map (\<lambda>v. tf_maximum v (Fin 0)) ?basic))"
    by (intro reduce_sum_nonneg [OF rs]) blast
  then show ?thesis using eq by simp
qed

text \<open>
  C10: whatever the order of the additions, a loss returned by
  \<open>triplet_loss\<close> is non-negative (infinity included) or NaN, for every margin
  \<open>alpha\<close>; and a non-negative loss is returned whenever \<open>y_pred\<close> consists of three
  encodings of one shape, the margin is finite in float32 and for no example both
  squared distances have overflowed to infinity.
\<close>

theorem triplet_loss_nan_or_nonneg:
  "sums_like_additions reduce_sum \<longrightarrow>
     (triplet_loss reduce_sum y_true y_pred alpha = Inr loss \<longrightarrow> loss = NaN \<or> fl_nonneg loss)
     \<and> (y_pred = [anchor, positive, negative] \<and> same_shapes anchor positive negative
          \<and> is_finite (round_to binary32 alpha)
          \<and> no_double_overflow reduce_sum anchor positive negative \<longrightarrow>
        (\<exists>l. triplet_loss reduce_sum y_true y_pred alpha = Inr l \<and> fl_nonneg l))"
  using triplet_loss_returns_nan_or_nonneg [of reduce_sum y_true y_pred alpha loss]
    triplet_loss_defined_nonneg [of reduce_sum y_pred anchor positive negative alpha y_true]
  by blast

theorem triplet_loss_nan_or_nonneg_witness:
  "sums_like_additions sum_in_order
   \<and> (same_shapes [[1, 2], [0, 0]] [[1, 1], [3, 0]] [[3, 2], [1, 0]]
      \<and> is_finite (round_to binary32 (1 / 4))
      \<and> no_double_overflow sum_in_order [[1, 2], [0, 0]] [[1, 1], [3, 0]] [[3, 2], [1, 0]])
   \<and> triplet_loss sum_in_order () [[[1, 2], [0, 0]], [[1, 1], [3, 0]], [[3, 2], [1, 0]]] (1 / 4)
       = Inr (Fin (33 / 4))
   \<and> fl_nonneg (Fin (33 / 4))"
  using triplet_loss_nan_or_nonneg [of sum_in_order "()"
      "[[[1, 2], [0, 0]], [[1, 1], [3, 0]], [[3, 2], [1, 0]]]" "1 / 4" "Fin (33 / 4)"
      "[[1, 2], [0, 0]]" "[[1, 1], [3, 0]]" "[[3, 2], [1, 0]]"]
    sum_in_order_sums
  by (simp add: same_shapes_def no_double_overflow_def squared_distance_def sum_in_order_def
      triplet_loss_def tf_subtract_def tf_subtract_vec_def tf_square_def reduce_sum_last_def
      tf_maximum_def Let_def fl_sub_Fin round_to32_small round_to_zero)

text \<open>
  C10 does not hold of every input in float32: with the anchor \<open>2^70\<close> and a positive and a
  negative of \<open>0\<close>, both squared distances overflow to infinity, their difference is
  NaN, and so is the loss.
\<close>

theorem triplet_loss_counterexample:
  "same_shapes [[2 ^ 70]] [[0]] [[0]] \<and> representable binary32 (2 ^ 70)
   \<and> sums_like_additions sum_in_order
   \<and> triplet_loss sum_in_order () [[[2 ^ 70]], [[0]], [[0]]] (1 / 4) = Inr NaN
   \<and> \<not> fl_nonneg NaN"
proof -
  have r: "round_to binary32 (2 ^ 70) = Fin (2 ^ 70)" "round_to binary32 (2 ^ 140) = PInf"
    using round_to_pow2 [of binary32 70] round_to_pow2 [of binary32 140] by simp_all
  have sq: "(2::real) ^ 70 * 2 ^ 70 = 2 ^ 140" by (simp add: power_add [symmetric])
  have rep: "representable binary32 (2 ^ 70)"
    using r(1) by (simp add: representable_def)
  have d: "tf_subtract [[2 ^ 70]] [[0]] = Inr [[Fin (2 ^ 70)]]"
    using r(1) by (simp add: tf_subtract_def fl_sub_Fin del: power_numeral)
  have q: "reduce_sum_last sum_in_order (tf_square [[Fin (2 ^ 70)]]) = [PInf]"
    using r(2) by (simp add: reduce_sum_last_def tf_square_def sum_in_order_def sq del: power_numeral)
  have "triplet_loss sum_in_order () [[[2 ^ 70]], [[0]], [[0]]] (1 / 4) = Inr NaN"
    using round_to32_small(10)
    by (simp add: triplet_loss_def Let_def d q tf_subtract_vec_def fl_sub_def tf_maximum_def
        sum_in_order_def del: power_numeral)
  then show ?thesis using rep sum_in_order_sums by (simp add: same_shapes_def del: power_numeral)
qed

end
